theory Spec2Isabelle
  imports Main "HOL-Library.Word"
begin

unbundle bit_operations_syntax

section \<open>C strings, buffers and the C library\<close>

text \<open>
  A \<open>char\<close> array is the list of its bytes and a \<open>char*\<close> into it is an offset.
  Every buffer the firmware parses carries its terminator explicitly: the callers write
  \<open>data[len] = 0\<close> after a receive, and \<open>String::c_str()\<close> is NUL-terminated. A read
  at an offset beyond the list is a read of memory the program never wrote; the functions
  below that can do such a read return it as a fault.
\<close>

abbreviation NUL :: char where
  "NUL \<equiv> CHR 0x00"

definition cstr :: "string \<Rightarrow> nat \<Rightarrow> string" where
  \<comment> \<open>the C string a pointer \<open>buf + p\<close> denotes: the bytes up to the first NUL\<close>
  "cstr buf p = takeWhile (\<lambda>c. c \<noteq> NUL) (drop p buf)"

fun strrchr_scan :: "string \<Rightarrow> char \<Rightarrow> nat \<Rightarrow> nat option \<Rightarrow> nat option" where
  "strrchr_scan [] c i found = found"
| "strrchr_scan (x # xs) c i found =
     (if x = NUL then found
      else strrchr_scan xs c (Suc i) (if x = c then Some i else found))"

definition strrchr :: "string \<Rightarrow> nat \<Rightarrow> char \<Rightarrow> nat option" where
  \<comment> \<open>\<open>strrchr(buf + p, c)\<close>: offset of the last \<open>c\<close> before the terminator\<close>
  "strrchr buf p c = strrchr_scan (drop p buf) c p None"

fun strchr_scan :: "string \<Rightarrow> char \<Rightarrow> nat \<Rightarrow> nat option" where
  "strchr_scan [] c i = None"
| "strchr_scan (x # xs) c i =
     (if x = NUL then None else if x = c then Some i else strchr_scan xs c (Suc i))"

definition strchr :: "string \<Rightarrow> nat \<Rightarrow> char \<Rightarrow> nat option" where
  "strchr buf p c = strchr_scan (drop p buf) c p"

fun strstr_scan :: "string \<Rightarrow> string \<Rightarrow> nat \<Rightarrow> nat option" where
  "strstr_scan [] pat i = (if pat = [] then Some i else None)"
| "strstr_scan (x # xs) pat i =
     (if take (length pat) (x # xs) = pat then Some i else strstr_scan xs pat (Suc i))"

definition strstr :: "string \<Rightarrow> nat \<Rightarrow> string \<Rightarrow> nat option" where
  \<comment> \<open>\<open>strstr(buf + p, pat)\<close>: offset of the first occurrence of \<open>pat\<close> in the C string\<close>
  "strstr buf p pat = strstr_scan (cstr buf p) pat p"

definition strcmp_eq :: "string \<Rightarrow> nat \<Rightarrow> string \<Rightarrow> bool" where
  \<comment> \<open>\<open>!strcmp(buf + p, lit)\<close>\<close>
  "strcmp_eq buf p lit = (cstr buf p = lit)"

definition strncmp_eq :: "string \<Rightarrow> nat \<Rightarrow> string \<Rightarrow> nat \<Rightarrow> bool" where
  \<comment> \<open>\<open>!strncmp(buf + p, lit, n)\<close>\<close>
  "strncmp_eq buf p lit n = (take n (cstr buf p) = take n lit)"

definition peek :: "string \<Rightarrow> nat \<Rightarrow> char option" where
  \<comment> \<open>\<open>buf[i]\<close>; \<open>None\<close> beyond the bytes the program wrote\<close>
  "peek buf i = (if i < length buf then Some (buf ! i) else None)"

definition isspace :: "char \<Rightarrow> bool" where
  "isspace c = (c \<in> set [CHR '' '', CHR 0x09, CHR 0x0A, CHR 0x0B, CHR 0x0C, CHR 0x0D])"

definition isdigit :: "char \<Rightarrow> bool" where
  "isdigit c = ((48::nat) \<le> of_char c \<and> of_char c \<le> (57::nat))"

fun digits :: "string \<Rightarrow> nat \<Rightarrow> nat" where
  "digits [] acc = acc"
| "digits (c # cs) acc =
     (if isdigit c then digits cs (acc * 10 + (of_char c - 48)) else acc)"

definition strtol10 :: "string \<Rightarrow> int" where
  \<comment> \<open>\<open>strtol(s, NULL, 10)\<close> with a 32-bit \<open>long\<close>: white space, a sign, digits;
      a value out of range is clamped\<close>
  "strtol10 s =
     (let s1 = dropWhile isspace s in
      case s1 of
        [] \<Rightarrow> 0
      | c # cs \<Rightarrow>
          if c = CHR ''-'' then max (- 2147483648) (- int (digits cs 0))
          else if c = CHR ''+'' then min 2147483647 (int (digits cs 0))
          else min 2147483647 (int (digits s1 0)))"

definition atol :: "string \<Rightarrow> nat \<Rightarrow> int" where
  "atol buf p = strtol10 (cstr buf p)"

definition atoi :: "string \<Rightarrow> nat \<Rightarrow> int" where
  "atoi buf p = strtol10 (cstr buf p)"

fun dec :: "nat \<Rightarrow> string" where
  \<comment> \<open>\<open>%u\<close> and \<open>%lu\<close>\<close>
  "dec n = (if n < 10 then [''0123456789'' ! n]
            else dec (n div 10) @ [''0123456789'' ! (n mod 10)])"

declare dec.simps [simp del]

definition dec_int :: "int \<Rightarrow> string" where
  \<comment> \<open>\<open>%d\<close>\<close>
  "dec_int i = (if i < 0 then CHR ''-'' # dec (nat (- i)) else dec (nat i))"

fun hex :: "nat \<Rightarrow> string" where
  \<comment> \<open>\<open>%X\<close>\<close>
  "hex n = (if n < 16 then [''0123456789ABCDEF'' ! n]
            else hex (n div 16) @ [''0123456789ABCDEF'' ! (n mod 16)])"

declare hex.simps [simp del]

definition pad0 :: "nat \<Rightarrow> string \<Rightarrow> string" where
  \<comment> \<open>zero padding to a minimum width, as \<open>%02u\<close> and \<open>%04u\<close> do\<close>
  "pad0 w s = replicate (w - length s) (CHR ''0'') @ s"


section \<open>Declarations that live outside this file\<close>

text \<open>
  \<open>telelogger.ino\<close> is compiled against \<open>config.h\<close> and the FreematicsONE library, neither
  of which is part of the sources at hand. Their macros, constants and the two hexadecimal
  readers are parameters of the model, collected in one record, so that every result below
  holds for any build. Of the values \<open>NET_DEVICE\<close> may take, only the three below give a
  \<open>login()\<close> that compiles with a return value on every path, and \<open>MEMS_MODE\<close> is non-zero
  in every build that compiles, since \<open>setup\<close> calls \<open>calibrateMEMS\<close> outside any \<open>#if\<close>.
\<close>

datatype net_device = NET_WIFI | NET_SIM800 | NET_SIM5360

datatype storage_type = STORAGE_NONE | STORAGE_SD

record platform =
  NET_DEVICE :: net_device
  ENABLE_OBD :: bool
  ENABLE_GPS :: "bool option"  \<comment> \<open>\<open>None\<close>: the macro is not defined (\<open>setup\<close> tests \<open>#ifdef\<close>)\<close>
  STORAGE_TYPE :: storage_type
  SERVER_KEY :: "string option"  \<comment> \<open>\<open>None\<close>: a null pointer\<close>
  DEFAULT_VIN :: string
  WIFI_SSID :: string
  CELL_APN :: string
  netDeviceName :: string
  RAM_CACHE_SIZE :: nat
  SERVER_SYNC_INTERVAL :: nat
  DATA_SENDING_INTERVAL :: nat
  MAX_CONN_ERRORS_RECONNECT :: nat
  EVENT_LOGIN :: "8 word"
  EVENT_SYNC :: "8 word"
  EVENT_COMMAND :: "8 word"
  EVENT_ACK :: "8 word"
  PID_SPEED :: "8 word"
  PID_RPM :: "8 word"
  PID_ENGINE_LOAD :: "8 word"
  PID_THROTTLE :: "8 word"
  PID_INTAKE_TEMP :: "8 word"
  PID_COOLANT_TEMP :: "8 word"
  PID_BAROMETRIC :: "8 word"
  PID_AMBIENT_TEMP :: "8 word"
  PID_ENGINE_FUEL_RATE :: "8 word"
  PID_TRIP_DISTANCE :: "16 word"
  PID_CSQ :: "16 word"
  hex2uint8 :: "string \<Rightarrow> 8 word"
  hex2uint16 :: "string \<Rightarrow> 16 word"

text \<open>
  Modelled from the spec: \<open>hex2uint8\<close> of the FreematicsONE library, which is not under
  \<open>src/\<close>. The spec calls what follows the \<open>*\<close> "the 2-hex-digit value"; this reader takes
  two hexadecimal digits and yields 0 when they are not there. It instantiates the
  \<open>hex2uint8\<close> parameter in the concrete examples only.
\<close>

definition hexval :: "char \<Rightarrow> nat option" where
  \<comment> \<open>Modelled from the spec: the value of one hexadecimal digit\<close>
  "hexval c =
     (let n = (of_char c :: nat) in
      if 48 \<le> n \<and> n \<le> 57 then Some (n - 48)
      else if 65 \<le> n \<and> n \<le> 70 then Some (n - 55)
      else if 97 \<le> n \<and> n \<le> 102 then Some (n - 87)
      else None)"

definition hex2uint8_spec :: "string \<Rightarrow> 8 word" where
  \<comment> \<open>Modelled from the spec: \<open>hex2uint8\<close> of the library, "the 2-hex-digit value"\<close>
  "hex2uint8_spec s =
     (case s of
        a # b # _ \<Rightarrow>
          (case (hexval a, hexval b) of
             (Some x, Some y) \<Rightarrow> word_of_nat (16 * x + y)
           | _ \<Rightarrow> 0)
      | _ \<Rightarrow> 0)"

section \<open>The outside world\<close>

text \<open>
  The drivers, the transport and the clock are collaborators of this file. Each answer they
  give is read from an oracle at the number of the call (\<open>tick\<close>), so a \<open>world\<close> fixes one
  complete behaviour of the surroundings and a statement for all worlds covers every
  behaviour. What the firmware does to them is appended to a trace.
\<close>

record tm =
  tm_year :: int
  tm_mon :: int
  tm_mday :: int
  tm_hour :: int
  tm_min :: int
  tm_sec :: int

record world =
  millis_at :: "nat \<Rightarrow> 32 word"
  netBegin_at :: "nat \<Rightarrow> bool"
  netSetup_at :: "nat \<Rightarrow> bool"
  netOpen_at :: "nat \<Rightarrow> bool"
  netSend_at :: "nat \<Rightarrow> bool"
  netReceive_at :: "nat \<Rightarrow> string option"  \<comment> \<open>the \<open>len\<close> bytes received, if any\<close>
  getOperatorName_at :: "nat \<Rightarrow> string"
  getIP_at :: "nat \<Rightarrow> string"
  getSignal_at :: "nat \<Rightarrow> int"
  obdInit_at :: "nat \<Rightarrow> bool"
  readPID_at :: "nat \<Rightarrow> 8 word \<Rightarrow> 32 word option"  \<comment> \<open>the \<open>int\<close> read, if the read succeeds\<close>
  isValidPID_at :: "nat \<Rightarrow> 8 word \<Rightarrow> bool"
  sendCommand_at :: "nat \<Rightarrow> string option"  \<comment> \<open>the reply text when more than 0 bytes came\<close>
  getVIN_at :: "nat \<Rightarrow> string option"
  readDTC_at :: "nat \<Rightarrow> 16 word list"
  memsInit_at :: "nat \<Rightarrow> bool"
  gpsInit_at :: "nat \<Rightarrow> bool"
  gpsDate_at :: "nat \<Rightarrow> 32 word"  \<comment> \<open>\<open>gdata.date\<close> after \<open>gpsGetData\<close>\<close>
  gmtime_at :: "nat \<Rightarrow> tm"
  storeInit_at :: "nat \<Rightarrow> bool"
  storeBegin_at :: "nat \<Rightarrow> bool"
  storeSize_at :: "nat \<Rightarrow> 32 word"

datatype event =
    SerialPrint string
  | SerialPrintln string
  | SerialPrintTenths int  \<comment> \<open>\<open>Serial.print((float)csq / 10, 1)\<close>\<close>
  | BlePrint string
  | DigitalWrite nat bool
  | NetOpen
  | NetClose
  | NetSend string
  | SetTimeOfDay "32 word"
  | ObdSendCommand string
  | CalibrateMEMS
  | Sleep nat
  | Delay nat
  | StoreBegin "32 word"
  | StoreEnd
  | CacheSetForward

section \<open>The sample cache\<close>

text \<open>
  Modelled from the spec: class \<open>CStorageRAM\<close> of the FreematicsONE library (the type of
  \<open>cache\<close> and \<open>netbuf\<close>), which is not under \<open>src/\<close>. The spec (4.2) gives: \<open>open(feedId)\<close>
  resets the buffer and writes a header tagged with the feed identifier; \<open>append\<close> encodes a
  sample and grows the buffer, dropping the sample silently when the capacity is exceeded;
  \<open>seal()\<close> appends a checksum trailer, the 8-bit sum of all prior bytes in hexadecimal;
  \<open>unseal()\<close> removes the trailer; \<open>sampleCount()\<close> counts the samples. The spec fixes no
  byte layout for the header and the samples: the identifier is written in hexadecimal
  followed by \<open>#\<close>, a sample as hexadecimal key, \<open>=\<close> and decimal value.
\<close>

record storage =
  m_cache :: string
  m_samples :: nat
  m_cacheSize :: nat

definition checksum :: "string \<Rightarrow> 8 word" where
  \<comment> \<open>Modelled from the spec: the 8-bit sum of the bytes\<close>
  "checksum bytes = fold (\<lambda>c acc. acc + of_char c) bytes 0"

definition init_storage :: "nat \<Rightarrow> storage \<Rightarrow> storage" where
  \<comment> \<open>Modelled from the spec: \<open>init(size)\<close> sets the configured capacity\<close>
  "init_storage cacheSize st = st\<lparr>m_cacheSize := cacheSize\<rparr>"

definition header :: "16 word \<Rightarrow> storage \<Rightarrow> storage" where
  \<comment> \<open>Modelled from the spec: \<open>open(feedId)\<close> resets the buffer and writes the header\<close>
  "header feed st = st\<lparr>m_cache := hex (unat feed) @ ''#'', m_samples := 0\<rparr>"

definition dispatch :: "string \<Rightarrow> storage \<Rightarrow> storage" where
  \<comment> \<open>Modelled from the spec: \<open>append\<close> grows the buffer, or drops the sample when it
      would exceed the capacity\<close>
  "dispatch bytes st =
     (if length (m_cache st) + length bytes > m_cacheSize st then st
      else st\<lparr>m_cache := m_cache st @ bytes, m_samples := m_samples st + 1\<rparr>)"

definition log_storage :: "16 word \<Rightarrow> int \<Rightarrow> storage \<Rightarrow> storage" where
  \<comment> \<open>Modelled from the spec: \<open>append(key, value)\<close> encodes one sample (\<open>cache.log\<close>)\<close>
  "log_storage pid v st = dispatch (hex (unat pid) @ ''='' @ dec_int v) st"

definition tailer :: "storage \<Rightarrow> storage" where
  \<comment> \<open>Modelled from the spec: \<open>seal()\<close> appends \<open>*\<close> and the checksum of all prior bytes\<close>
  "tailer st =
     st\<lparr>m_cache := m_cache st @ ''*'' @ pad0 2 (hex (unat (checksum (m_cache st))))\<rparr>"

definition untailer :: "storage \<Rightarrow> storage" where
  \<comment> \<open>Modelled from the spec: \<open>unseal()\<close> removes the trailer\<close>
  "untailer st =
     (case strrchr (m_cache st) 0 (CHR ''*'') of
        None \<Rightarrow> st
      | Some p \<Rightarrow> st\<lparr>m_cache := take p (m_cache st)\<rparr>)"

definition samples :: "storage \<Rightarrow> nat" where
  \<comment> \<open>Modelled from the spec: \<open>sampleCount()\<close>\<close>
  "samples st = m_samples st"

definition buffer :: "storage \<Rightarrow> string" where
  \<comment> \<open>Modelled from the spec: the bytes to transmit (\<open>buffer()\<close> and \<open>length()\<close>)\<close>
  "buffer st = m_cache st"

section \<open>The logger object\<close>

text \<open>
  The file's globals, the members of \<open>CTeleLogger\<close>, the \<open>static\<close> counter of \<open>processOBD\<close>
  and the members the class inherits from \<open>CTeleClient\<close> (\<open>feedid\<close>, \<open>txCount\<close>,
  \<open>connErrors\<close>, \<open>m_serverName\<close>). Modelled from the spec: the inherited members are
  declared in the library; the spec (3) describes the connection error counter as one that
  "monotonically increments" and is "reset to zero on any successful reply", and the feed
  identifier as numeric: the two counters are natural numbers, the identifier is what
  \<open>hex2uint16\<close> yields.
\<close>

record logger =
  lastSpeed :: "32 word"  \<comment> \<open>\<open>int\<close>, read with \<open>sint\<close>\<close>
  lastSpeedTime :: "32 word"
  distance :: "32 word"
  lastSentTime :: "32 word"
  lastSyncTime :: "32 word"
  deviceTemp :: "8 word"
  m_state :: "8 word"
  m_ledMode :: "8 word"
  lastCmdToken :: "32 word"
  serialCommand :: string
  cache :: storage
  netbuf :: storage
  feedid :: "16 word"
  txCount :: nat
  connErrors :: nat
  m_serverName :: string
  count :: "8 word"
  trace :: "event list"
  tick :: nat

definition STATE_STORAGE_READY :: "8 word" where "STATE_STORAGE_READY = 0x1"
definition STATE_OBD_READY :: "8 word" where "STATE_OBD_READY = 0x2"
definition STATE_GPS_READY :: "8 word" where "STATE_GPS_READY = 0x4"
definition STATE_MEMS_READY :: "8 word" where "STATE_MEMS_READY = 0x8"
definition STATE_NET_READY :: "8 word" where "STATE_NET_READY = 0x10"
definition STATE_CONNECTED :: "8 word" where "STATE_CONNECTED = 0x20"
definition STATE_ALL_GOOD :: "8 word" where "STATE_ALL_GOOD = 0x40"

definition PIN_LED :: nat where "PIN_LED = 4"

definition checkState :: "8 word \<Rightarrow> logger \<Rightarrow> bool" where
  "checkState flags s = (m_state s AND flags = flags)"

definition setState :: "8 word \<Rightarrow> logger \<Rightarrow> logger" where
  "setState flags s = s\<lparr>m_state := m_state s OR flags\<rparr>"

definition clearState :: "8 word \<Rightarrow> logger \<Rightarrow> logger" where
  "clearState flags s = s\<lparr>m_state := m_state s AND NOT flags\<rparr>"

definition emit :: "event \<Rightarrow> logger \<Rightarrow> logger" where
  \<comment> \<open>an effect on the surroundings\<close>
  "emit e s = s\<lparr>trace := trace s @ [e]\<rparr>"

definition asked :: "logger \<Rightarrow> logger" where
  \<comment> \<open>an answer of the surroundings has been read\<close>
  "asked s = s\<lparr>tick := Suc (tick s)\<rparr>"


section \<open>Loops with a fixed number of attempts\<close>

text \<open>
  \<open>for (byte attempts = 0; attempts < 3; attempts++) { ... }\<close> occurs in \<open>setup\<close>,
  \<open>processCommand\<close>, \<open>login\<close> and \<open>notifyServer\<close>. The body either goes on to the next
  attempt (\<open>continue\<close>, or its end), leaves the loop (\<open>break\<close>) or leaves the function
  (\<open>return\<close>).
\<close>

datatype 'a flow = Continue logger | Break logger | Return 'a logger

function attempts3 :: "(logger \<Rightarrow> 'a flow) \<Rightarrow> nat \<Rightarrow> logger \<Rightarrow> 'a option \<times> logger" where
  "attempts3 body attempts s =
     (if attempts < 3 then
        (case body s of
           Continue s' \<Rightarrow> attempts3 body (attempts + 1) s'
         | Break s' \<Rightarrow> (None, s')
         | Return r s' \<Rightarrow> (Some r, s'))
      else (None, s))"
  by pat_completeness auto
termination
  by (relation "measure (\<lambda>(body, attempts, s). 3 - attempts)") auto

declare attempts3.simps [simp del]

section \<open>The wire protocol\<close>

definition verifyChecksum :: "platform \<Rightarrow> string \<Rightarrow> bool \<times> string" where
  \<comment> \<open>returns the verdict and the buffer as the call leaves it\<close>
  "verifyChecksum pf data =
     (case strrchr data 0 (CHR ''*'') of
        None \<Rightarrow> (False, data)
      | Some s \<Rightarrow>
          (let sum = fold (\<lambda>c acc. acc + of_char c) (take s data) (0 :: 8 word) in
           if hex2uint8 pf (cstr data (s + 1)) = sum then (True, data[s := NUL])
           else (False, data)))"

definition request :: "8 word \<Rightarrow> 32 word \<Rightarrow> string option \<Rightarrow> string option \<Rightarrow> string" where
  \<comment> \<open>the \<open>String req\<close> of \<open>notifyServer\<close>\<close>
  "request ev ms serverKey payload =
     ''EV='' @ dec (unat ev) @ '',TS='' @ dec (unat ms)
     @ (case serverKey of None \<Rightarrow> [] | Some k \<Rightarrow> '',SK='' @ k)
     @ (case payload of None \<Rightarrow> [] | Some p \<Rightarrow> '','' @ p)"

definition login_reply :: "platform \<Rightarrow> string \<Rightarrow> logger \<Rightarrow> logger" where
  \<comment> \<open>the block \<open>if (event == EVENT_LOGIN) { ... }\<close> of \<open>notifyServer\<close>\<close>
  "login_reply pf data s =
     (let s1 = (case strstr data 0 ''TM='' of
                  None \<Rightarrow> s
                | Some p \<Rightarrow> emit (SetTimeOfDay (word_of_int (atol data (p + 3)))) s);
          (data1, s2) =
            (case strstr data 0 ''SN='' of
               None \<Rightarrow> (data, s1)
             | Some p \<Rightarrow>
                 (let data' = (case strchr data p (CHR '','') of
                                 None \<Rightarrow> data
                               | Some q \<Rightarrow> data[q := NUL])
                  in (data', s1\<lparr>m_serverName := cstr data' (p + 3)\<rparr>)))
      in s2\<lparr>feedid := hex2uint16 pf (cstr data1 0)\<rparr>)"

definition notifyServer_attempt :: "platform \<Rightarrow> world \<Rightarrow> 8 word \<Rightarrow> logger \<Rightarrow> bool flow" where
  \<comment> \<open>the body of the loop of \<open>notifyServer\<close>\<close>
  "notifyServer_attempt pf w ev s =
     (let sent = netSend_at w (tick s);
          s1 = asked (emit (NetSend (buffer (netbuf s))) s)
      in
        if \<not> sent then Continue (emit (SerialPrint ''.'') s1)
        else if ev = EVENT_ACK pf then Return True s1
        else
          (case netReceive_at w (tick s1) of
             None \<Rightarrow> Continue (emit (SerialPrint ''.'') (asked s1))
           | Some bytes \<Rightarrow>
               (let s2 = asked s1;
                    (valid, data) = verifyChecksum pf (bytes @ [NUL])
                in
                  if \<not> valid then
                    Continue (emit (SerialPrint (cstr data 0))
                               (emit (SerialPrint ''Checksum mismatch:'') s2))
                  else if strstr data 0 (''EV='' @ dec (unat ev)) = None then
                    Continue (emit (SerialPrint ''Invalid reply'') s2)
                  else
                    (let s3 = (if ev = EVENT_LOGIN pf then login_reply pf data s2 else s2)
                     in Return True ((emit (SerialPrint '' '') s3)\<lparr>connErrors := 0\<rparr>)))))"

definition notifyServer ::
  "platform \<Rightarrow> world \<Rightarrow> 8 word \<Rightarrow> string option \<Rightarrow> string option \<Rightarrow> logger \<Rightarrow> bool \<times> logger" where
  "notifyServer pf w ev serverKey payload s =
     (let nb0 = header (feedid s) (netbuf s);
          ms = millis_at w (tick s);
          s1 = asked s;
          nb = tailer (dispatch (request ev ms serverKey payload) nb0)
      in
        case attempts3 (notifyServer_attempt pf w ev) 0 (s1\<lparr>netbuf := nb\<rparr>) of
          (Some r, s') \<Rightarrow> (r, s')
        | (None, s') \<Rightarrow> (False, s'))"

definition dtc_text :: "16 word list \<Rightarrow> string" where
  \<comment> \<open>\<open>"%X;"\<close> for each code, the last \<open>;\<close> overwritten by the terminator\<close>
  "dtc_text dtc = butlast (concat (map (\<lambda>d. hex (unat d) @ '';'') dtc))"

definition login_data :: "platform \<Rightarrow> world \<Rightarrow> logger \<Rightarrow> string \<times> logger" where
  \<comment> \<open>the \<open>String data\<close> that \<open>login\<close> assembles before its attempts\<close>
  "login_data pf w s =
     (if ENABLE_OBD pf then
        (let vin = getVIN_at w (tick s);
             s1 = asked s;
             (d1, s2) =
               (case vin of
                  Some buf \<Rightarrow>
                    (''VIN='' @ buf, emit (SerialPrintln buf) (emit (SerialPrint ''VIN:'') s1))
                | None \<Rightarrow> (''VIN='' @ DEFAULT_VIN pf, s1));
             dtc = take 6 (readDTC_at w (tick s2));
             s3 = asked s2
         in
           if length dtc > 0 then
             (d1 @ '',DTC='' @ dtc_text dtc,
              emit (SerialPrintln (dec (length dtc))) (emit (SerialPrint ''DTC:'') s3))
           else (d1, s3))
      else (''VIN='' @ DEFAULT_VIN pf, s))"

definition login_attempt :: "platform \<Rightarrow> world \<Rightarrow> string \<Rightarrow> logger \<Rightarrow> bool flow" where
  \<comment> \<open>the body of the loop of \<open>login\<close>\<close>
  "login_attempt pf w data s =
     (let s1 = emit (SerialPrint ''LOGIN...'') s;
          opened = netOpen_at w (tick s1);
          s2 = asked (emit NetOpen s1)
      in
        if \<not> opened then Continue (emit (SerialPrintln ''NO'') s2)
        else
          (case notifyServer pf w (EVENT_LOGIN pf) (SERVER_KEY pf) (Some data) s2 of
             (False, s3) \<Rightarrow> Continue (emit (SerialPrintln ''NO'') (emit NetClose s3))
           | (True, s3) \<Rightarrow>
               Return True
                 (emit (SerialPrintln (dec (unat (feedid s3))))
                   (emit (SerialPrint ''FEED ID:'')
                     (emit (SerialPrintln (m_serverName s3))
                       (emit (SerialPrint ''SERVER:'')
                         (emit (SerialPrintln ''OK'') s3)))))))"

definition login :: "platform \<Rightarrow> world \<Rightarrow> logger \<Rightarrow> bool \<times> logger" where
  "login pf w s =
     (let (data, s1) = login_data pf w s in
      case attempts3 (login_attempt pf w data) 0 s1 of
        (Some r, s') \<Rightarrow> (r, s')
      | (None, s') \<Rightarrow> (False, s'))"


section \<open>Bringing the device up\<close>

definition setup_mems :: "world \<Rightarrow> logger \<Rightarrow> logger" where
  "setup_mems w s =
     (if \<not> checkState STATE_MEMS_READY s then
        (let s1 = emit (SerialPrint ''MEMS...'') s;
             ok = memsInit_at w (tick s1);
             s2 = asked s1
         in
           if ok then
             emit (BlePrint ''MEMS OK'') (emit (SerialPrintln ''OK'') (setState STATE_MEMS_READY s2))
           else emit (SerialPrintln ''NO'') s2)
      else s)"

definition setup_obd :: "platform \<Rightarrow> world \<Rightarrow> logger \<Rightarrow> bool \<times> logger" where
  \<comment> \<open>\<open>False\<close>: \<open>setup\<close> returns \<open>false\<close> here\<close>
  "setup_obd pf w s =
     (if ENABLE_OBD pf \<and> \<not> checkState STATE_OBD_READY s then
        (let s1 = emit (SerialPrint ''OBD...'') s;
             ok = obdInit_at w (tick s1);
             s2 = asked s1
         in
           if \<not> ok then (False, emit (SerialPrintln ''NO'') s2)
           else (True, setState STATE_OBD_READY
                         (emit (BlePrint ''OBD OK'') (emit (SerialPrintln ''OK'') s2))))
      else (True, s))"

definition setup_gps :: "platform \<Rightarrow> world \<Rightarrow> logger \<Rightarrow> logger" where
  "setup_gps pf w s =
     (if ENABLE_GPS pf \<noteq> None \<and> \<not> checkState STATE_GPS_READY s then
        (let s1 = emit (SerialPrint ''GPS...'') s;
             ok = gpsInit_at w (tick s1);
             s2 = asked s1
         in
           if ok then
             emit (BlePrint ''GPS OK'') (emit (SerialPrintln ''OK'') (setState STATE_GPS_READY s2))
           else emit (SerialPrintln ''NO'') s2)
      else s)"

definition wifi_attempt :: "platform \<Rightarrow> world \<Rightarrow> logger \<Rightarrow> unit flow" where
  \<comment> \<open>the body of the loop of \<open>setup\<close> for \<open>NET_WIFI\<close>; \<open>&&\<close> does not call \<open>netSetup\<close>
      when \<open>netBegin\<close> fails\<close>
  "wifi_attempt pf w s =
     (let s1 = emit (SerialPrint '')...'')
                 (emit (SerialPrint (WIFI_SSID pf)) (emit (SerialPrint ''WIFI(SSID:'') s));
          began = netBegin_at w (tick s1);
          s2 = asked s1
      in
        if began then
          (let ready = netSetup_at w (tick s2);
               s3 = asked s2
           in
             if ready then
               Break (setState STATE_NET_READY
                        (emit (SerialPrintln ''OK'') (emit (BlePrint ''WIFI OK'') s3)))
             else Continue (emit (SerialPrintln ''NO'') s3))
        else Continue (emit (SerialPrintln ''NO'') s2))"

definition setup_cell :: "platform \<Rightarrow> world \<Rightarrow> logger \<Rightarrow> bool \<times> logger" where
  \<comment> \<open>the network part of \<open>setup\<close> for \<open>NET_SIM800\<close> and \<open>NET_SIM5360\<close>\<close>
  "setup_cell pf w s =
     (let (up, s2) =
            (if \<not> checkState STATE_NET_READY s then
               (let s1 = emit (SerialPrint ''...'') (emit (SerialPrint (netDeviceName pf)) s);
                    began = netBegin_at w (tick s1)
                in
                  if began then
                    (True, setState STATE_NET_READY
                             (emit (BlePrint ''NET OK'') (emit (SerialPrintln ''OK'') (asked s1))))
                  else (False, emit (SerialPrintln ''NO'') (asked s1)))
             else (True, s))
      in
        if \<not> up then (False, s2)
        else
          (let s3 = emit (SerialPrint '')'')
                      (emit (SerialPrint (CELL_APN pf)) (emit (SerialPrint ''CELL(APN:'') s2));
               ready = netSetup_at w (tick s3);
               s4 = asked s3
           in
             if ready then
               (let s5 = emit (BlePrint ''CELL OK'') s4;
                    op = getOperatorName_at w (tick s5);
                    s6 = asked s5
                in
                  if length op \<noteq> 0 then (True, emit (BlePrint op) (emit (SerialPrintln op) s6))
                  else (True, emit (SerialPrintln ''OK'') s6))
             else (False, emit (SerialPrintln ''NO'') s4)))"

definition setup_net :: "platform \<Rightarrow> world \<Rightarrow> logger \<Rightarrow> bool \<times> logger" where
  "setup_net pf w s =
     (case NET_DEVICE pf of
        NET_WIFI \<Rightarrow>
          (let s1 = snd (attempts3 (wifi_attempt pf w) 0 s) in
           if \<not> checkState STATE_NET_READY s1 then (False, s1) else (True, s1))
      | _ \<Rightarrow> setup_cell pf w s)"

definition setup_ip :: "world \<Rightarrow> logger \<Rightarrow> int \<times> logger" where
  \<comment> \<open>the address and signal report; returns \<open>csq\<close>\<close>
  "setup_ip w s =
     (let s1 = emit (SerialPrint ''IP...'') s;
          ip = getIP_at w (tick s1);
          s2 = asked s1;
          s3 = (if length ip \<noteq> 0 then emit (BlePrint ip) (emit (SerialPrintln ip) s2)
                else emit (SerialPrintln ''NO'') s2);
          csq = getSignal_at w (tick s3);
          s4 = asked s3
      in
        if csq > 0 then
          (csq, emit (SerialPrintln ''dB'')
                  (emit (SerialPrintTenths csq) (emit (SerialPrint ''CSQ...'') s4)))
        else (csq, s4))"

definition fmt_u :: "nat \<Rightarrow> int \<Rightarrow> string" where
  \<comment> \<open>\<open>%0<w>u\<close> of an \<open>int\<close> argument\<close>
  "fmt_u wd x = pad0 wd (dec (nat (x mod 4294967296)))"

definition setup_time :: "world \<Rightarrow> logger \<Rightarrow> (bool \<times> tm) \<times> logger" where
  \<comment> \<open>the system time check; returns \<open>utcValid\<close> and \<open>*btm\<close>\<close>
  "setup_time w s =
     (let btm = gmtime_at w (tick s);
          s1 = asked s
      in
        if tm_year btm > 100 then
          (let buf = fmt_u 4 (1900 + tm_year btm) @ ''-'' @ fmt_u 2 (tm_mon btm + 1) @ ''-''
                     @ fmt_u 2 (tm_mday btm) @ '' '' @ fmt_u 2 (tm_hour btm) @ '':''
                     @ fmt_u 2 (tm_min btm) @ '':'' @ fmt_u 2 (tm_sec btm)
           in ((True, btm), emit (SerialPrintln buf) (emit (SerialPrint ''UTC:'') s1)))
        else ((False, btm), s1))"

function gps_wait :: "world \<Rightarrow> 32 word \<Rightarrow> nat \<Rightarrow> logger \<Rightarrow> 32 word \<times> logger" where
  \<comment> \<open>\<open>for (int i = 0; gdata.date == 0 && i < 60; i++)\<close>; returns \<open>gdata.date\<close>\<close>
  "gps_wait w date i s =
     (if date = 0 \<and> i < 60 then
        (let s1 = emit (Sleep 1000) (emit (SerialPrint ''.'') s) in
         gps_wait w (gpsDate_at w (tick s1)) (i + 1) (asked s1))
      else (date, s))"
  by pat_completeness auto
termination
  by (relation "measure (\<lambda>(w, date, i, s). 60 - i)") auto

declare gps_wait.simps [simp del]

definition setup_storage :: "platform \<Rightarrow> world \<Rightarrow> bool \<Rightarrow> tm \<Rightarrow> logger \<Rightarrow> logger" where
  \<comment> \<open>the block under \<open>#if STORAGE_TYPE != STORAGE_NONE\<close>\<close>
  "setup_storage pf w utcValid btm s =
     (let (date, s2) =
            (if utcValid then
               (word_of_int ((1900 + tm_year btm) * 10000 + (tm_mon btm + 1) * 100 + tm_mday btm)
                  :: 32 word, s)
             else if checkState STATE_GPS_READY s then
               (let (gdate, s1) = gps_wait w 0 0 (emit (SerialPrint ''Waiting GPS time..'') s);
                    s1' = emit (SerialPrintln []) s1
                in
                  if gdate \<noteq> 0 then
                    (let year = gdate mod 100 + 2000;
                         month = (gdate div 100) mod 100;
                         day = gdate div 10000
                     in (year * 10000 + month * 100 + day, s1'))
                  else (0, s1'))
             else (0, s))
      in
        if \<not> checkState STATE_STORAGE_READY s2 then
          (let inited = storeInit_at w (tick s2);
               s3 = asked s2
           in
             if inited then
               (let s4 = setState STATE_STORAGE_READY s3;
                    begun = storeBegin_at w (tick s4);
                    s5 = asked (emit (StoreBegin date) s4)
                in if begun then emit CacheSetForward s5 else s5)
             else s3)
        else s2)"

definition setup_logger :: "platform \<Rightarrow> world \<Rightarrow> logger \<Rightarrow> bool \<times> logger" where
  \<comment> \<open>\<open>CTeleLogger::setup\<close>\<close>
  "setup_logger pf w s =
     (let s0 = (clearState STATE_ALL_GOOD s)\<lparr>distance := 0\<rparr>;
          s1 = setup_mems w s0
      in
        case setup_obd pf w s1 of
          (False, s2) \<Rightarrow> (False, s2)
        | (True, s2) \<Rightarrow>
            (case setup_net pf w (setup_gps pf w s2) of
               (False, s3) \<Rightarrow> (False, s3)
             | (True, s3) \<Rightarrow>
                 (let s4 = (if checkState STATE_MEMS_READY s3 then emit CalibrateMEMS s3 else s3);
                      (csq, s5) = setup_ip w s4;
                      s6 = s5\<lparr>txCount := 0,
                              cache := init_storage (RAM_CACHE_SIZE pf) (cache s5),
                              netbuf := init_storage 256 (netbuf s5)\<rparr>
                  in
                    case login pf w s6 of
                      (False, s7) \<Rightarrow> (False, s7)
                    | (True, s7) \<Rightarrow>
                        (let s8 = setState STATE_CONNECTED s7;
                             s9 = s8\<lparr>cache := header (feedid s8) (cache s8)\<rparr>;
                             s10 = (asked s9)\<lparr>lastSyncTime := millis_at w (tick s9)\<rparr>;
                             s11 = (if NET_DEVICE pf \<noteq> NET_WIFI \<and> csq \<noteq> 0
                                    then s10\<lparr>cache := log_storage (PID_CSQ pf) csq (cache s10)\<rparr>
                                    else s10);
                             ((utcValid, btm), s12) = setup_time w s11;
                             s13 = (if STORAGE_TYPE pf \<noteq> STORAGE_NONE
                                    then setup_storage pf w utcValid btm s12 else s12)
                         in (True, setState STATE_ALL_GOOD s13)))))"


section \<open>Commands\<close>

text \<open>
  A call that does not come back to its caller is a value of its own: \<open>ESP.restart()\<close>
  restarts the device, and a read outside a buffer or a table has no defined result.
\<close>

datatype stop = Restart | ReadPastEnd | IndexOutOfBounds nat

definition prefix_and_arg :: "string \<Rightarrow> nat \<Rightarrow> string \<Rightarrow> bool option" where
  \<comment> \<open>\<open>!strncmp(cmd, lit, 3) && cmd[4]\<close>; \<open>None\<close> when \<open>cmd[4]\<close> lies beyond the buffer\<close>
  "prefix_and_arg buf cmd lit =
     (if strncmp_eq buf cmd lit 3 then
        (case peek buf (cmd + 4) of
           None \<Rightarrow> None
         | Some c \<Rightarrow> Some (c \<noteq> NUL))
      else Some False)"

definition obd_command :: "world \<Rightarrow> string \<Rightarrow> nat \<Rightarrow> logger \<Rightarrow> (stop \<times> logger) + (string \<times> logger)" where
  \<comment> \<open>the \<open>OBD\<close> branch of \<open>executeCommand\<close>; the copy loop starts at \<open>buf[4]\<close>\<close>
  "obd_command w buf cmd s =
     (let obdcmd = cstr buf (cmd + 4) @ [CHR 0x0D];
          reply = sendCommand_at w (tick s);
          s1 = asked (emit (ObdSendCommand obdcmd) s)
      in
        case reply of
          None \<Rightarrow> Inr (''TIMEOUT'', s1)
        | Some r \<Rightarrow>
            (let s2 = emit (SerialPrintln (cstr r 0)) s1 in
             if length (cstr r 0) < 4 then Inl (ReadPastEnd, s2)
             else Inr (map (\<lambda>c. if c = CHR 0x0D \<or> c = CHR 0x0A then CHR '' '' else c)
                         (drop 4 (cstr r 0)), s2)))"

definition executeCommand ::
  "platform \<Rightarrow> world \<Rightarrow> string \<Rightarrow> nat \<Rightarrow> logger \<Rightarrow> (stop \<times> logger) + (string \<times> logger)" where
  \<comment> \<open>\<open>cmd\<close> is an offset into \<open>buf\<close>\<close>
  "executeCommand pf w buf cmd s =
     (let s1 = emit (SerialPrintln (cstr buf cmd)) s in
      case prefix_and_arg buf cmd ''LED'' of
        None \<Rightarrow> Inl (ReadPastEnd, s1)
      | Some True \<Rightarrow>
          (let s2 = s1\<lparr>m_ledMode := word_of_int (atoi buf (cmd + 4))\<rparr> in
           Inr (''OK'', emit (DigitalWrite PIN_LED (m_ledMode s2 = 2)) s2))
      | Some False \<Rightarrow>
          if strcmp_eq buf cmd ''REBOOT'' then
            (if STORAGE_TYPE pf \<noteq> STORAGE_NONE \<and> checkState STATE_STORAGE_READY s1
             then Inl (Restart, clearState STATE_STORAGE_READY (emit StoreEnd s1))
             else Inl (Restart, s1))
          else if strcmp_eq buf cmd ''STANDBY'' then
            Inr (''OK'', clearState STATE_ALL_GOOD s1)
          else
            (case prefix_and_arg buf cmd ''OBD'' of
               None \<Rightarrow> Inl (ReadPastEnd, s1)
             | Some True \<Rightarrow> obd_command w buf cmd s1
             | Some False \<Rightarrow> Inr ([], s1)))"

definition ack_attempt :: "platform \<Rightarrow> world \<Rightarrow> string \<Rightarrow> logger \<Rightarrow> unit flow" where
  \<comment> \<open>the body of either acknowledgment loop of \<open>processCommand\<close>\<close>
  "ack_attempt pf w buf s =
     (case notifyServer pf w (EVENT_ACK pf) (SERVER_KEY pf) (Some buf)
             (emit (SerialPrintln ''Sending ACK...'') s) of
        (True, s1) \<Rightarrow> Break (emit (SerialPrintln ''ACK sent'') s1)
      | (False, s1) \<Rightarrow> Continue s1)"

definition processCommand ::
  "platform \<Rightarrow> world \<Rightarrow> string \<Rightarrow> logger \<Rightarrow> (stop \<times> logger) + (bool option \<times> logger)" where
  \<comment> \<open>the value is \<open>None\<close> where control reaches the end of the function without a
      \<open>return\<close>\<close>
  "processCommand pf w data s =
     (case strstr data 0 ''TK='' of
        None \<Rightarrow> Inr (Some False, s)
      | Some p \<Rightarrow>
          (let token = (word_of_int (atol data (p + 3)) :: 32 word) in
           case strstr data 0 ''CMD='' of
             None \<Rightarrow> Inr (Some False, s)
           | Some q \<Rightarrow>
               (let cmd = q + 4 in
                if token > lastCmdToken s then
                  (case executeCommand pf w data cmd s of
                     Inl stopped \<Rightarrow> Inl stopped
                   | Inr (result, s1) \<Rightarrow>
                       (let buf = take 255 (''TK='' @ dec (unat token) @ '',MSG='' @ cstr result 0)
                        in Inr (None, snd (attempts3 (ack_attempt pf w buf) 0 s1))))
                else
                  (let buf = take 63 (''TK='' @ dec (unat token) @ '',DUP=1'')
                   in Inr (None, snd (attempts3 (ack_attempt pf w buf) 0 s))))))"

section \<open>The main loop\<close>

text \<open>
  \<open>CTeleLogger::loop\<close> in the blocks the statements below are about: the inbound datagram
  (\<open>do { ... } while(0)\<close>), the transmission of the cache, and the serial command channel.
  \<open>t\<close> is the \<open>millis()\<close> value the loop reads before the datagram block.
\<close>

definition loop_datagram ::
  "platform \<Rightarrow> world \<Rightarrow> 32 word \<Rightarrow> logger \<Rightarrow> (stop \<times> logger) + logger" where
  "loop_datagram pf w t s =
     (case netReceive_at w (tick s) of
        None \<Rightarrow> Inr (asked s)
      | Some bytes \<Rightarrow>
          (let s1 = asked s;
               (valid, data) = verifyChecksum pf (bytes @ [NUL])
           in
             if \<not> valid then
               Inr (emit (SerialPrint (cstr data 0)) (emit (SerialPrint ''Checksum mismatch:'') s1))
             else
               (case strstr data 0 ''EV='' of
                  None \<Rightarrow> Inr s1
                | Some p \<Rightarrow>
                    (let eventID = atoi data (p + 3) in
                     if eventID = uint (EVENT_COMMAND pf) then
                       (case processCommand pf w data s1 of
                          Inl stopped \<Rightarrow> Inl stopped
                        | Inr (r, s2) \<Rightarrow> Inr s2)
                     else if eventID = uint (EVENT_SYNC pf) then Inr (s1\<lparr>lastSyncTime := t\<rparr>)
                     else Inr s1))))"

definition sent_report :: "platform \<Rightarrow> world \<Rightarrow> logger \<Rightarrow> string \<times> logger" where
  \<comment> \<open>the \<open>sprintf\<close> after a successful transmission\<close>
  "sent_report pf w s =
     (if STORAGE_TYPE pf = STORAGE_NONE then
        (dec (length (buffer (cache s))) @ '' bytes sent'', s)
      else
        (dec (length (buffer (cache s))) @ ''B sent ''
           @ dec (unat (drop_bit 10 (storeSize_at w (tick s)))) @ '' KB saved'', asked s))"

definition loop_transmit :: "platform \<Rightarrow> world \<Rightarrow> 32 word \<Rightarrow> logger \<Rightarrow> logger" where
  "loop_transmit pf w t s =
     (if SERVER_SYNC_INTERVAL pf \<noteq> 0
         \<and> t - lastSyncTime s \<ge> word_of_nat (SERVER_SYNC_INTERVAL pf * 1000) then
        (emit (SerialPrintln ''NO SYNC'') s)\<lparr>connErrors := connErrors s + 1\<rparr>
      else if t - lastSentTime s \<ge> word_of_nat (DATA_SENDING_INTERVAL pf)
              \<and> samples (cache s) > 0 then
        (let s1 = (if m_ledMode s = 0 then emit (DigitalWrite PIN_LED True) s else s);
             s2 = emit (SerialPrint ''] '')
                    (emit (SerialPrint (dec (txCount s1))) (emit (SerialPrint ''['') s1));
             s3 = s2\<lparr>cache := tailer (cache s2)\<rparr>;
             sent = netSend_at w (tick s3);
             s4 = asked (emit (NetSend (buffer (cache s3))) s3);
             s5 = (if sent then
                     (let s5a = s4\<lparr>connErrors := 0, txCount := txCount s4 + 1\<rparr>;
                          (buf, s5b) = sent_report pf w s5a;
                          s5c = emit (SerialPrintln buf) (emit (BlePrint buf) s5b)
                      in s5c\<lparr>cache := header (feedid s5c) (cache s5c)\<rparr>)
                   else
                     (let s5a = emit (BlePrint ''Unsent'')
                                  (emit (SerialPrintln ''Unsent'')
                                     (s4\<lparr>connErrors := connErrors s4 + 1\<rparr>))
                      in s5a\<lparr>cache := untailer (cache s5a)\<rparr>));
             s6 = (if m_ledMode s5 = 0 then emit (DigitalWrite PIN_LED False) s5 else s5);
             s7 = (if connErrors s6 \<ge> MAX_CONN_ERRORS_RECONNECT pf
                   then (asked (emit NetOpen (emit NetClose s6)))\<lparr>lastSyncTime := 0\<rparr>
                   else s6)
         in s7\<lparr>lastSentTime := t\<rparr>)
      else s)"

definition serial_char :: "platform \<Rightarrow> world \<Rightarrow> char \<Rightarrow> logger \<Rightarrow> (stop \<times> logger) + logger" where
  \<comment> \<open>the body of \<open>while (Serial.available())\<close> for the character \<open>c\<close> read\<close>
  "serial_char pf w c s =
     (if c = CHR 0x0D \<or> c = CHR 0x0A then
        (if length (serialCommand s) > 0 then
           (case executeCommand pf w (serialCommand s @ [NUL]) 0 s of
              Inl stopped \<Rightarrow> Inl stopped
            | Inr (result, s1) \<Rightarrow> Inr (emit (SerialPrintln result) (s1\<lparr>serialCommand := []\<rparr>)))
         else Inr s)
      else if length (serialCommand s) < 32 then
        Inr (s\<lparr>serialCommand := serialCommand s @ [c]\<rparr>)
      else Inr s)"

fun loop_serial :: "platform \<Rightarrow> world \<Rightarrow> string \<Rightarrow> logger \<Rightarrow> (stop \<times> logger) + logger" where
  \<comment> \<open>the serial loop over the characters that are available\<close>
  "loop_serial pf w [] s = Inr s"
| "loop_serial pf w (c # rest) s =
     (case serial_char pf w c s of
        Inl stopped \<Rightarrow> Inl stopped
      | Inr s1 \<Rightarrow> loop_serial pf w rest s1)"

section \<open>Vehicle-bus polling\<close>

definition readSpeed :: "platform \<Rightarrow> world \<Rightarrow> logger \<Rightarrow> 32 word \<times> logger" where
  \<comment> \<open>\<open>int * uint32_t\<close> is computed in \<open>uint32_t\<close>; the division is unsigned\<close>
  "readSpeed pf w s =
     (case readPID_at w (tick s) (PID_SPEED pf) of
        Some v \<Rightarrow>
          (let s1 = asked s;
               t = millis_at w (tick s1);
               s2 = asked s1
           in (v, s2\<lparr>distance :=
                       distance s2 + (((v + lastSpeed s2) * (t - lastSpeedTime s2)) div 3600) div 2,
                     lastSpeedTime := t,
                     lastSpeed := v\<rparr>))
      | None \<Rightarrow> (- 1, asked s))"

definition poll_pid :: "world \<Rightarrow> 8 word \<Rightarrow> logger \<Rightarrow> logger" where
  \<comment> \<open>\<open>if (readPID(pid, value)) cache.log(0x100 | pid, value); delay(1);\<close>\<close>
  "poll_pid w pid s =
     (let s1 = asked s in
      emit (Delay 1)
        (case readPID_at w (tick s) pid of
           Some v \<Rightarrow> s1\<lparr>cache := log_storage (0x100 OR ucast pid) (sint v) (cache s1)\<rparr>
         | None \<Rightarrow> s1))"

definition poll_tier2 :: "world \<Rightarrow> 8 word \<Rightarrow> logger \<Rightarrow> logger" where
  \<comment> \<open>\<open>if (isValidPID(pid) && readPID(pid, value)) cache.log(0x100 | pid, value); delay(1);\<close>\<close>
  "poll_tier2 w pid s =
     (let s1 = asked s in
      if isValidPID_at w (tick s) pid then poll_pid w pid s1 else emit (Delay 1) s1)"

definition pidTier2 :: "platform \<Rightarrow> 8 word list" where
  "pidTier2 pf =
     [PID_INTAKE_TEMP pf, PID_COOLANT_TEMP pf, PID_BAROMETRIC pf, PID_AMBIENT_TEMP pf,
      PID_ENGINE_FUEL_RATE pf]"

definition rotate_tier2 :: "platform \<Rightarrow> world \<Rightarrow> logger \<Rightarrow> (stop \<times> logger) + logger" where
  \<comment> \<open>the end of \<open>processOBD\<close>, from \<open>static byte count = 0;\<close> on: \<open>count++ % 50\<close> tests the
      old value, \<open>count / 50\<close> divides the new one\<close>
  "rotate_tier2 pf w s =
     (let fire = (unat (count s) mod 50 = 0);
          s1 = s\<lparr>count := count s + 1\<rparr>
      in
        if fire then
          (let i = unat (count s1) div 50 in
           if i < length (pidTier2 pf) then Inr (poll_tier2 w (pidTier2 pf ! i) s1)
           else Inl (IndexOutOfBounds i, s1))
        else Inr s1)"

definition processOBD :: "platform \<Rightarrow> world \<Rightarrow> logger \<Rightarrow> (stop \<times> logger) + logger" where
  "processOBD pf w s =
     (case readSpeed pf w s of
        (speed, s1) \<Rightarrow>
          if speed = - 1 then Inr s1
          else
            (let s2 = s1\<lparr>cache := log_storage (0x100 OR ucast (PID_SPEED pf)) (sint speed) (cache s1)\<rparr>;
                 s3 = s2\<lparr>cache := log_storage (PID_TRIP_DISTANCE pf) (sint (distance s2)) (cache s2)\<rparr>;
                 s4 = fold (poll_pid w) [PID_RPM pf, PID_ENGINE_LOAD pf, PID_THROTTLE pf] s3
             in rotate_tier2 pf w s4))"

section \<open>Reading the statements\<close>

text \<open>
  The checksum rule in the words of the spec (4.4): split at the last \<open>*\<close>, sum all bytes
  strictly before it as an unsigned 8-bit accumulator, compare to the value after it.
  It is stated on the text of the datagram, independently of \<open>verifyChecksum\<close>.
\<close>

definition split_last :: "char \<Rightarrow> string \<Rightarrow> (string \<times> string) option" where
  "split_last c text =
     (if c \<in> set text then
        Some (rev (tl (dropWhile (\<lambda>x. x \<noteq> c) (rev text))),
              rev (takeWhile (\<lambda>x. x \<noteq> c) (rev text)))
      else None)"

definition checksum_valid :: "platform \<Rightarrow> string \<Rightarrow> bool" where
  "checksum_valid pf text =
     (case split_last (CHR ''*'') text of
        None \<Rightarrow> False
      | Some (pre, post) \<Rightarrow> hex2uint8 pf post = checksum pre)"

text \<open>Counting what went out on the link.\<close>

fun is_NetSend :: "event \<Rightarrow> bool" where
  "is_NetSend (NetSend d) = True"
| "is_NetSend e = False"

definition sends :: "logger \<Rightarrow> nat" where
  "sends s = length (filter is_NetSend (trace s))"

definition opens :: "logger \<Rightarrow> nat" where
  "opens s = length (filter (\<lambda>e. e = NetOpen) (trace s))"

text \<open>Consecutive calls of \<open>readSpeed\<close> and consecutive polling iterations.\<close>

primrec readSpeed_times :: "platform \<Rightarrow> world \<Rightarrow> nat \<Rightarrow> logger \<Rightarrow> logger" where
  "readSpeed_times pf w 0 s = s"
| "readSpeed_times pf w (Suc n) s = snd (readSpeed pf w (readSpeed_times pf w n s))"

primrec processOBD_times :: "platform \<Rightarrow> world \<Rightarrow> nat \<Rightarrow> logger \<Rightarrow> (stop \<times> logger) + logger" where
  "processOBD_times pf w 0 s = Inr s"
| "processOBD_times pf w (Suc n) s =
     (case processOBD_times pf w n s of
        Inl stopped \<Rightarrow> Inl stopped
      | Inr s1 \<Rightarrow> processOBD pf w s1)"

text \<open>The logger as a call leaves it, whether it returned or stopped.\<close>

definition flow_state :: "'a flow \<Rightarrow> logger" where
  "flow_state fl = (case fl of Continue s \<Rightarrow> s | Break s \<Rightarrow> s | Return r s \<Rightarrow> s)"

definition state_of :: "(stop \<times> logger) + logger \<Rightarrow> logger" where
  "state_of r = (case r of Inl (st, s) \<Rightarrow> s | Inr s \<Rightarrow> s)"

definition state_of_result :: "(stop \<times> logger) + ('a \<times> logger) \<Rightarrow> logger" where
  "state_of_result r = (case r of Inl (st, s) \<Rightarrow> s | Inr (v, s) \<Rightarrow> s)"

text \<open>What a run did to its surroundings, the console and status text left out.\<close>

fun is_text :: "event \<Rightarrow> bool" where
  "is_text (SerialPrint t) = True"
| "is_text (SerialPrintln t) = True"
| "is_text (SerialPrintTenths i) = True"
| "is_text (BlePrint t) = True"
| "is_text e = False"

definition effects :: "logger \<Rightarrow> event list" where
  "effects s = filter (\<lambda>e. \<not> is_text e) (trace s)"

text \<open>Two successive passes of the datagram block of the main loop.\<close>

definition loop_datagram_twice ::
  "platform \<Rightarrow> world \<Rightarrow> 32 word \<Rightarrow> logger \<Rightarrow> (stop \<times> logger) + logger" where
  "loop_datagram_twice pf w t s =
     (case loop_datagram pf w t s of
        Inl stopped \<Rightarrow> Inl stopped
      | Inr s1 \<Rightarrow> loop_datagram pf w t s1)"

section \<open>A sample build, a silent world and the state at power-up\<close>

text \<open>
  The concrete examples run on these. The build takes the event and parameter numbers of
  the Freematics Hub protocol and OBD-II; the silent world answers every call with a
  failure; \<open>boot\<close> holds the initial values the source gives its variables, and \<open>ready\<close> is
  \<open>boot\<close> after the two \<open>init\<close> calls of \<open>setup\<close>.
\<close>

definition hex2uint16_spec :: "string \<Rightarrow> 16 word" where
  \<comment> \<open>Modelled from the spec: \<open>hex2uint16\<close> of the library, which reads the numeric
      feed identifier at the start of a LOGIN reply: up to four leading hexadecimal digits\<close>
  "hex2uint16_spec s =
     word_of_nat
       (foldl (\<lambda>a c. case hexval c of None \<Rightarrow> a | Some d \<Rightarrow> 16 * a + d) 0
          (take 4 (takeWhile (\<lambda>c. hexval c \<noteq> None) s)))"

definition example_platform :: platform where
  "example_platform =
     \<lparr>NET_DEVICE = NET_SIM5360, ENABLE_OBD = True, ENABLE_GPS = Some True,
      STORAGE_TYPE = STORAGE_NONE, SERVER_KEY = Some ''KEY'', DEFAULT_VIN = ''DEFAULT_VIN'',
      WIFI_SSID = ''HOMEWIFI'', CELL_APN = ''connect'', netDeviceName = ''SIM5360'',
      RAM_CACHE_SIZE = 1024, SERVER_SYNC_INTERVAL = 60, DATA_SENDING_INTERVAL = 1000,
      MAX_CONN_ERRORS_RECONNECT = 3,
      EVENT_LOGIN = 1, EVENT_SYNC = 3, EVENT_COMMAND = 5, EVENT_ACK = 6,
      PID_SPEED = 0x0D, PID_RPM = 0x0C, PID_ENGINE_LOAD = 0x04, PID_THROTTLE = 0x11,
      PID_INTAKE_TEMP = 0x0F, PID_COOLANT_TEMP = 0x05, PID_BAROMETRIC = 0x33,
      PID_AMBIENT_TEMP = 0x46, PID_ENGINE_FUEL_RATE = 0x5E,
      PID_TRIP_DISTANCE = 0x30, PID_CSQ = 0x81,
      hex2uint8 = hex2uint8_spec, hex2uint16 = hex2uint16_spec\<rparr>"

definition quiet_world :: world where
  "quiet_world =
     \<lparr>millis_at = (\<lambda>k. 0), netBegin_at = (\<lambda>k. False), netSetup_at = (\<lambda>k. False),
      netOpen_at = (\<lambda>k. False), netSend_at = (\<lambda>k. False), netReceive_at = (\<lambda>k. None),
      getOperatorName_at = (\<lambda>k. []), getIP_at = (\<lambda>k. []), getSignal_at = (\<lambda>k. 0),
      obdInit_at = (\<lambda>k. False), readPID_at = (\<lambda>k pid. None),
      isValidPID_at = (\<lambda>k pid. False), sendCommand_at = (\<lambda>k. None),
      getVIN_at = (\<lambda>k. None), readDTC_at = (\<lambda>k. []), memsInit_at = (\<lambda>k. False),
      gpsInit_at = (\<lambda>k. False), gpsDate_at = (\<lambda>k. 0),
      gmtime_at = (\<lambda>k. \<lparr>tm_year = 0, tm_mon = 0, tm_mday = 0, tm_hour = 0, tm_min = 0,
                          tm_sec = 0\<rparr>),
      storeInit_at = (\<lambda>k. False), storeBegin_at = (\<lambda>k. False), storeSize_at = (\<lambda>k. 0)\<rparr>"

definition boot :: logger where
  "boot =
     \<lparr>lastSpeed = 0, lastSpeedTime = 0, distance = 0, lastSentTime = 0, lastSyncTime = 0,
      deviceTemp = 0, m_state = 0, m_ledMode = 0, lastCmdToken = 0, serialCommand = [],
      cache = \<lparr>m_cache = [], m_samples = 0, m_cacheSize = 0\<rparr>,
      netbuf = \<lparr>m_cache = [], m_samples = 0, m_cacheSize = 0\<rparr>,
      feedid = 0, txCount = 0, connErrors = 0, m_serverName = [], count = 0,
      trace = [], tick = 0\<rparr>"

definition ready :: logger where
  "ready = boot\<lparr>cache := init_storage 1024 (cache boot),
                netbuf := init_storage 256 (netbuf boot)\<rparr>"



definition corrupting_server :: world where
  \<comment> \<open>every device comes up and every send succeeds, but each reply has a wrong checksum\<close>
  "corrupting_server =
     quiet_world\<lparr>memsInit_at := (\<lambda>k. True), obdInit_at := (\<lambda>k. True),
                 netBegin_at := (\<lambda>k. True), netSetup_at := (\<lambda>k. True),
                 netOpen_at := (\<lambda>k. True), netSend_at := (\<lambda>k. True),
                 netReceive_at := (\<lambda>k. Some ''1#EV=1*00'')\<rparr>"

definition replaying_server :: world where
  \<comment> \<open>every send succeeds and every receive yields the same command datagram, token 5\<close>
  "replaying_server =
     quiet_world\<lparr>netSend_at := (\<lambda>k. True),
                 netReceive_at := (\<lambda>k. Some ''EV=5,TK=5,CMD=LED=2*CB'')\<rparr>"

definition steady_drive :: world where
  \<comment> \<open>every parameter reads 60, the clock advances one second per call\<close>
  "steady_drive =
     quiet_world\<lparr>readPID_at := (\<lambda>k pid. Some 60), millis_at := (\<lambda>k. of_nat k * 1000)\<rparr>"

definition hypersonic :: world where
  \<comment> \<open>the speed reads 1000000000 each time; the clock advances one millisecond per call\<close>
  "hypersonic =
     quiet_world\<lparr>readPID_at := (\<lambda>k pid. Some 1000000000), millis_at := (\<lambda>k. of_nat (Suc k))\<rparr>"

definition nul_datagram_server :: world where
  \<comment> \<open>every receive yields the eleven bytes \<open>EV=3*0B\<close>, NUL, \<open>*00\<close>\<close>
  "nul_datagram_server =
     quiet_world\<lparr>netReceive_at := (\<lambda>k. Some (''EV=3*0B'' @ [NUL] @ ''*00''))\<rparr>"

definition trailer_command_server :: world where
  \<comment> \<open>every send succeeds and every receive yields a command datagram whose command is
      the bare word \<open>LED\<close>, token 10099, with the trailer \<open>2A\<close>\<close>
  "trailer_command_server =
     quiet_world\<lparr>netSend_at := (\<lambda>k. True),
                 netReceive_at := (\<lambda>k. Some ''EV=5,TK=10099,CMD=LED*2A'')\<rparr>"

definition cached :: logger where
  \<comment> \<open>\<open>ready\<close> with one sample waiting, the last sync at 4 s and two failed cycles so far\<close>
  "cached = ready\<lparr>cache := \<lparr>m_cache = ''0#10D=60'', m_samples = 1, m_cacheSize = 1024\<rparr>,
                  lastSyncTime := 4000, connErrors := 2\<rparr>"

section \<open>Checksum validation\<close>

lemma strrchr_scan_absent:
  "c \<notin> set (takeWhile (\<lambda>x. x \<noteq> NUL) xs) \<Longrightarrow> strrchr_scan xs c i found = found"
  by (induction xs arbitrary: i found) (auto split: if_splits)

lemma strrchr_scan_split:
  "takeWhile (\<lambda>x. x \<noteq> NUL) xs = pre @ c # post \<Longrightarrow> c \<notin> set post \<Longrightarrow> c \<noteq> NUL
   \<Longrightarrow> strrchr_scan xs c i found = Some (i + length pre)"
proof (induction pre arbitrary: xs i found)
  case Nil
  then obtain xs' where xs: "xs = c # xs'" and rest: "takeWhile (\<lambda>x. x \<noteq> NUL) xs' = post"
    by (cases xs) (auto split: if_splits)
  with Nil show ?case by (simp add: strrchr_scan_absent)
next
  case (Cons p pre)
  then obtain xs' where xs: "xs = p # xs'" and p: "p \<noteq> NUL"
    and rest: "takeWhile (\<lambda>x. x \<noteq> NUL) xs' = pre @ c # post"
    by (cases xs) (auto split: if_splits)
  from Cons.IH [OF rest Cons.prems(2,3)] xs p show ?case by simp
qed

lemma split_last_Some:
  "split_last c text = Some (pre, post) \<Longrightarrow> text = pre @ c # post \<and> c \<notin> set post"
proof -
  assume a: "split_last c text = Some (pre, post)"
  then have mem: "c \<in> set text"
    and pre: "pre = rev (tl (dropWhile (\<lambda>x. x \<noteq> c) (rev text)))"
    and post: "post = rev (takeWhile (\<lambda>x. x \<noteq> c) (rev text))"
    by (auto simp: split_last_def split: if_splits)
  from mem have ne: "dropWhile (\<lambda>x. x \<noteq> c) (rev text) \<noteq> []" by (simp add: dropWhile_eq_Nil_conv)
  then have "hd (dropWhile (\<lambda>x. x \<noteq> c) (rev text)) = c"
    using hd_dropWhile [of "\<lambda>x. x \<noteq> c" "rev text"] by simp
  with ne have d: "dropWhile (\<lambda>x. x \<noteq> c) (rev text) = c # tl (dropWhile (\<lambda>x. x \<noteq> c) (rev text))"
    by (cases "dropWhile (\<lambda>x. x \<noteq> c) (rev text)") auto
  have "rev text = takeWhile (\<lambda>x. x \<noteq> c) (rev text) @ dropWhile (\<lambda>x. x \<noteq> c) (rev text)"
    by simp
  then have "rev text = rev post @ c # rev pre" using d pre post by simp
  then have "rev (rev text) = rev (rev post @ c # rev pre)" by simp
  then have "text = pre @ c # post" by simp
  moreover have "c \<notin> set post" using post set_takeWhileD by fastforce
  ultimately show ?thesis by simp
qed

lemma split_last_None: "split_last c text = None \<longleftrightarrow> c \<notin> set text"
  by (simp add: split_last_def)

lemma cstr_0: "cstr data 0 = takeWhile (\<lambda>x. x \<noteq> NUL) data"
  by (simp add: cstr_def)

lemma cstr_terminated: "cstr (bytes @ [NUL]) 0 = cstr bytes 0"
  unfolding cstr_0 by (induction bytes) auto

lemma strrchr_0_None:
  "c \<noteq> NUL \<Longrightarrow> split_last c (cstr data 0) = None \<Longrightarrow> strrchr data 0 c = None"
  by (simp add: strrchr_def split_last_None cstr_0 strrchr_scan_absent)

lemma strrchr_0_Some:
  "c \<noteq> NUL \<Longrightarrow> split_last c (cstr data 0) = Some (pre, post)
   \<Longrightarrow> strrchr data 0 c = Some (length pre)"
  using strrchr_scan_split [of data pre c post 0 None] split_last_Some [of c "cstr data 0" pre post]
  by (simp add: strrchr_def cstr_0)

lemma cstr_split_parts:
  assumes "cstr data 0 = pre @ c # post"
  shows "take (length pre) data = pre" and "cstr data (length pre + 1) = post"
    and "length pre < length data" and "data ! length pre = c"
    and "cstr (data[length pre := NUL]) 0 = pre"
proof -
  define rest where "rest = dropWhile (\<lambda>x. x \<noteq> NUL) data"
  have "data = takeWhile (\<lambda>x. x \<noteq> NUL) data @ rest"
    unfolding rest_def by simp
  then have d: "data = (pre @ c # post) @ rest"
    using assms unfolding cstr_0 by simp
  have r: "rest = [] \<or> hd rest = NUL"
    unfolding rest_def using hd_dropWhile [of "\<lambda>x. x \<noteq> NUL" data] by blast
  have "\<forall>x \<in> set (takeWhile (\<lambda>x. x \<noteq> NUL) data). x \<noteq> NUL"
    using set_takeWhileD by fastforce
  then have nz: "\<forall>x \<in> set (pre @ c # post). x \<noteq> NUL"
    using assms unfolding cstr_0 by simp
  show "take (length pre) data = pre" using d by simp
  show "length pre < length data" using d by simp
  show "data ! length pre = c" using d by (simp add: nth_append)
  have "drop (length pre + 1) data = post @ rest" using d by simp
  then show "cstr data (length pre + 1) = post"
    using nz r unfolding cstr_def by (cases rest) (auto simp: takeWhile_append)
  have "data[length pre := NUL] = pre @ NUL # post @ rest" using d by (simp add: list_update_append)
  then show "cstr (data[length pre := NUL]) 0 = pre"
    using nz unfolding cstr_0 by (simp add: takeWhile_append)
qed

lemma verifyChecksum_eq:
  "verifyChecksum pf data =
     (case split_last (CHR ''*'') (cstr data 0) of
        None \<Rightarrow> (False, data)
      | Some (pre, post) \<Rightarrow>
          if hex2uint8 pf post = checksum pre then (True, data[length pre := NUL])
          else (False, data))"
proof (cases "split_last (CHR ''*'') (cstr data 0)")
  case None
  then show ?thesis by (simp add: verifyChecksum_def strrchr_0_None)
next
  case (Some pp)
  obtain pre post where pp: "pp = (pre, post)" by (cases pp)
  from Some pp have sp: "cstr data 0 = pre @ CHR ''*'' # post"
    using split_last_Some by blast
  have "strrchr data 0 (CHR ''*'') = Some (length pre)"
    using Some pp by (simp add: strrchr_0_Some)
  then show ?thesis
    using Some pp cstr_split_parts(1,2) [OF sp]
    by (simp add: verifyChecksum_def checksum_def Let_def)
qed

lemma verifyChecksum_valid: "fst (verifyChecksum pf data) = checksum_valid pf (cstr data 0)"
  by (simp add: verifyChecksum_eq checksum_valid_def split: option.splits prod.splits)

lemma verifyChecksum_reject: "\<not> fst (verifyChecksum pf data) \<Longrightarrow> snd (verifyChecksum pf data) = data"
  by (simp add: verifyChecksum_eq split: option.splits prod.splits if_splits)

lemma verifyChecksum_accept:
  assumes "fst (verifyChecksum pf data)"
  shows "\<exists>s. strrchr data 0 (CHR ''*'') = Some s \<and> s < length data \<and> data ! s = CHR ''*''
           \<and> snd (verifyChecksum pf data) = data[s := NUL]
           \<and> cstr (snd (verifyChecksum pf data)) 0 = take s data
           \<and> take s data = take s (cstr data 0)"
proof -
  from assms obtain pre post where sl: "split_last (CHR ''*'') (cstr data 0) = Some (pre, post)"
    and ok: "hex2uint8 pf post = checksum pre"
    by (auto simp: verifyChecksum_eq split: option.splits prod.splits if_splits)
  from sl have sp: "cstr data 0 = pre @ CHR ''*'' # post" using split_last_Some by blast
  have 1: "strrchr data 0 (CHR ''*'') = Some (length pre)" using sl by (simp add: strrchr_0_Some)
  have 2: "snd (verifyChecksum pf data) = data[length pre := NUL]"
    using sl ok by (simp add: verifyChecksum_eq)
  show ?thesis
    using 1 2 cstr_split_parts [OF sp] sp by auto
qed

lemma cstr_update_offset:
  assumes "cstr data 0 = pre @ c # post" and "p \<le> length pre"
  shows "cstr (data[length pre := NUL]) p = drop p pre"
proof -
  define rest where "rest = dropWhile (\<lambda>x. x \<noteq> NUL) data"
  have "data = takeWhile (\<lambda>x. x \<noteq> NUL) data @ rest"
    unfolding rest_def by simp
  then have d: "data = (pre @ c # post) @ rest"
    using assms(1) unfolding cstr_0 by simp
  have "\<forall>x \<in> set (takeWhile (\<lambda>x. x \<noteq> NUL) data). x \<noteq> NUL"
    using set_takeWhileD by fastforce
  then have nz: "\<forall>x \<in> set pre. x \<noteq> NUL"
    using assms(1) unfolding cstr_0 by simp
  then have nz': "\<forall>x \<in> set (drop p pre). x \<noteq> NUL"
    using in_set_dropD by fast
  have "data[length pre := NUL] = pre @ NUL # post @ rest" using d by (simp add: list_update_append)
  then have "drop p (data[length pre := NUL]) = drop p pre @ NUL # post @ rest"
    using assms(2) by simp
  then show ?thesis
    using nz' unfolding cstr_def by (simp add: takeWhile_append)
qed

lemma verifyChecksum_accept_payload:
  assumes "fst (verifyChecksum pf data)"
  shows "\<exists>s. strrchr data 0 (CHR ''*'') = Some s
           \<and> s < length (cstr data 0) \<and> cstr data 0 ! s = CHR ''*''
           \<and> CHR ''*'' \<notin> set (drop (Suc s) (cstr data 0))
           \<and> (\<forall>p \<le> s. cstr (data[s := NUL]) p = drop p (take s data))"
proof -
  from assms obtain pre post where sl: "split_last (CHR ''*'') (cstr data 0) = Some (pre, post)"
    and ok: "hex2uint8 pf post = checksum pre"
    by (auto simp: verifyChecksum_eq split: option.splits prod.splits if_splits)
  from sl have sp: "cstr data 0 = pre @ CHR ''*'' # post" and np: "CHR ''*'' \<notin> set post"
    using split_last_Some by blast+
  have 1: "strrchr data 0 (CHR ''*'') = Some (length pre)" using sl by (simp add: strrchr_0_Some)
  have 2: "\<forall>p \<le> length pre. cstr (data[length pre := NUL]) p = drop p (take (length pre) data)"
    using cstr_update_offset [OF sp] cstr_split_parts(1) [OF sp] by simp
  show ?thesis
    using 1 2 sp np by (simp add: nth_append)
qed

text \<open>
  C9 (as worded it fails: the trailer stays in the buffer, and the command's argument can be
  read from it). \<open>verifyChecksum\<close> changes its buffer exactly when it succeeds. On success
  one byte changes: the last \<open>*\<close> of the datagram text, which is the last \<open>*\<close> before the
  first NUL, becomes NUL; the bytes before it and the bytes of the trailer behind it stay
  as they were. So every C string read at the start of the buffer or at an offset inside
  the payload (\<open>strstr\<close> for the event, the token, the command, the server name and the
  feed identifier; \<open>atoi\<close> and \<open>atol\<close> on what they find) ends where the payload ends. On
  failure the buffer is returned byte for byte as it was.
\<close>

theorem verifyChecksum_mutates_iff_valid:
  "(fst (verifyChecksum pf data) \<longleftrightarrow> snd (verifyChecksum pf data) \<noteq> data)
   \<and> (fst (verifyChecksum pf data) \<longrightarrow>
        (\<exists>s. strrchr data 0 (CHR ''*'') = Some s \<and> s < length data \<and> data ! s = CHR ''*''
           \<and> s < length (cstr data 0) \<and> CHR ''*'' \<notin> set (drop (Suc s) (cstr data 0))
           \<and> snd (verifyChecksum pf data) = data[s := NUL]
           \<and> take s (snd (verifyChecksum pf data)) = take s data
           \<and> drop (Suc s) (snd (verifyChecksum pf data)) = drop (Suc s) data
           \<and> cstr (snd (verifyChecksum pf data)) 0 = take s data
           \<and> (\<forall>p \<le> s. cstr (snd (verifyChecksum pf data)) p = drop p (take s data))
           \<and> (\<forall>pat. strstr (snd (verifyChecksum pf data)) 0 pat = strstr_scan (take s data) pat 0)))
   \<and> (\<not> fst (verifyChecksum pf data) \<longrightarrow> snd (verifyChecksum pf data) = data)"
proof (cases "fst (verifyChecksum pf data)")
  case True
  from verifyChecksum_accept [OF True] obtain s where
    s: "strrchr data 0 (CHR ''*'') = Some s" "s < length data" "data ! s = CHR ''*''"
       "snd (verifyChecksum pf data) = data[s := NUL]"
       "cstr (snd (verifyChecksum pf data)) 0 = take s data"
    by blast
  from verifyChecksum_accept_payload [OF True] s(1) have
    t: "s < length (cstr data 0)" "CHR ''*'' \<notin> set (drop (Suc s) (cstr data 0))"
       "\<forall>p \<le> s. cstr (data[s := NUL]) p = drop p (take s data)"
    by auto
  have "data[s := NUL] \<noteq> data"
  proof
    assume "data[s := NUL] = data"
    then have "data[s := NUL] ! s = data ! s" by simp
    with s(2,3) show False by simp
  qed
  with True s t show ?thesis by (auto simp: strstr_def)
next
  case False
  then show ?thesis using verifyChecksum_reject by simp
qed

lemmas cdefs = cstr_def strrchr_def strchr_def strstr_def strcmp_eq_def strncmp_eq_def peek_def
  isspace_def isdigit_def strtol10_def atol_def atoi_def dec.simps dec_int_def hex.simps pad0_def
lemmas xdefs = example_platform_def quiet_world_def boot_def ready_def hex2uint8_spec_def hexval_def

theorem verifyChecksum_mutates_iff_valid_witness:
  "fst (verifyChecksum example_platform (''EV=1*09'' @ [NUL]))
   \<and> snd (verifyChecksum example_platform (''EV=1*09'' @ [NUL])) = ''EV=1'' @ [NUL] @ ''09'' @ [NUL]
   \<and> cstr (snd (verifyChecksum example_platform (''EV=1*09'' @ [NUL]))) 0 = ''EV=1''
   \<and> cstr (snd (verifyChecksum example_platform (''EV=1*09'' @ [NUL]))) 3 = ''1''
   \<and> \<not> fst (verifyChecksum example_platform (''EV=1*0A'' @ [NUL]))
   \<and> snd (verifyChecksum example_platform (''EV=1*0A'' @ [NUL])) = ''EV=1*0A'' @ [NUL]"
proof -
  have a: "fst (verifyChecksum example_platform (''EV=1*09'' @ [NUL]))"
    by (simp add: verifyChecksum_def cdefs xdefs)
  have b: "\<not> fst (verifyChecksum example_platform (''EV=1*0A'' @ [NUL]))"
    by (simp add: verifyChecksum_def cdefs xdefs)
  have c: "strrchr (''EV=1*09'' @ [NUL]) 0 (CHR ''*'') = Some 4"
    by (simp add: strrchr_def)
  show ?thesis
    using a b c
      verifyChecksum_mutates_iff_valid [of example_platform "''EV=1*09'' @ [NUL]"]
      verifyChecksum_mutates_iff_valid [of example_platform "''EV=1*0A'' @ [NUL]"]
    by auto
qed


lemma emit_fields [simp]:
  "trace (emit e s) = trace s @ [e]" "tick (emit e s) = tick s" "cache (emit e s) = cache s"
  "netbuf (emit e s) = netbuf s" "connErrors (emit e s) = connErrors s"
  "m_ledMode (emit e s) = m_ledMode s" "lastSyncTime (emit e s) = lastSyncTime s"
  "m_state (emit e s) = m_state s" "feedid (emit e s) = feedid s"
  "txCount (emit e s) = txCount s" "lastCmdToken (emit e s) = lastCmdToken s"
  "count (emit e s) = count s" "distance (emit e s) = distance s"
  by (simp_all add: emit_def)

lemma asked_fields [simp]:
  "trace (asked s) = trace s" "tick (asked s) = Suc (tick s)" "cache (asked s) = cache s"
  "netbuf (asked s) = netbuf s" "connErrors (asked s) = connErrors s"
  "m_ledMode (asked s) = m_ledMode s" "lastSyncTime (asked s) = lastSyncTime s"
  "m_state (asked s) = m_state s" "feedid (asked s) = feedid s"
  "txCount (asked s) = txCount s" "lastCmdToken (asked s) = lastCmdToken s"
  "count (asked s) = count s" "distance (asked s) = distance s"
  by (simp_all add: asked_def)

lemma verifyChecksum_invalid:
  "\<not> checksum_valid pf (cstr bytes 0) \<Longrightarrow> verifyChecksum pf (bytes @ [NUL]) = (False, bytes @ [NUL])"
  using verifyChecksum_valid [of pf "bytes @ [NUL]"] verifyChecksum_reject [of pf "bytes @ [NUL]"]
  by (simp add: cstr_terminated prod_eq_iff)

text \<open>
  C2 (as worded it fails for a datagram that holds a NUL byte: the split is made in the
  text before the first NUL, not in the received bytes). Checksum validation reads the
  datagram as the C string it is handed, the bytes up to the first NUL: it splits that text
  at its last \<open>*\<close>, sums the bytes strictly before it in an unsigned 8-bit accumulator and
  compares the sum with what \<open>hex2uint8\<close> reads after the \<open>*\<close>. On a mismatch, or without
  a \<open>*\<close> in the text, the datagram is rejected and nothing is parsed: the main loop leaves
  the logger as it was (the console text apart), and \<open>notifyServer\<close> goes on to its next
  attempt exactly as it does when no reply came.
\<close>

theorem checksum_validation:
  "fst (verifyChecksum pf data) = checksum_valid pf (cstr data 0)
   \<and> (netReceive_at w (tick s) = Some bytes \<and> \<not> checksum_valid pf (cstr bytes 0) \<longrightarrow>
        loop_datagram pf w t s =
          Inr (emit (SerialPrint (cstr bytes 0))
                 (emit (SerialPrint ''Checksum mismatch:'') (asked s))))
   \<and> (netSend_at w (tick s) \<and> ev \<noteq> EVENT_ACK pf \<and> netReceive_at w (Suc (tick s)) = Some bytes
        \<and> \<not> checksum_valid pf (cstr bytes 0) \<longrightarrow>
        notifyServer_attempt pf w ev s =
          Continue (emit (SerialPrint (cstr bytes 0))
                      (emit (SerialPrint ''Checksum mismatch:'')
                         (asked (asked (emit (NetSend (buffer (netbuf s))) s))))))
   \<and> (netSend_at w (tick s) \<and> ev \<noteq> EVENT_ACK pf \<and> netReceive_at w (Suc (tick s)) = None \<longrightarrow>
        notifyServer_attempt pf w ev s =
          Continue (emit (SerialPrint ''.'')
                      (asked (asked (emit (NetSend (buffer (netbuf s))) s)))))"
  by (simp add: verifyChecksum_valid verifyChecksum_invalid loop_datagram_def
      notifyServer_attempt_def cstr_terminated)

theorem checksum_validation_witness:
  "\<not> checksum_valid example_platform ''EV=1*0A''
   \<and> loop_datagram example_platform
        (quiet_world\<lparr>netSend_at := (\<lambda>k. True), netReceive_at := (\<lambda>k. Some ''EV=1*0A'')\<rparr>) 7 ready =
        Inr (emit (SerialPrint ''EV=1*0A'') (emit (SerialPrint ''Checksum mismatch:'') (asked ready)))
   \<and> notifyServer_attempt example_platform
        (quiet_world\<lparr>netSend_at := (\<lambda>k. True), netReceive_at := (\<lambda>k. Some ''EV=1*0A'')\<rparr>) 1 ready =
        Continue (emit (SerialPrint ''EV=1*0A'') (emit (SerialPrint ''Checksum mismatch:'')
          (asked (asked (emit (NetSend (buffer (netbuf ready))) ready)))))
   \<and> notifyServer_attempt example_platform (quiet_world\<lparr>netSend_at := (\<lambda>k. True)\<rparr>) 1 ready =
        Continue (emit (SerialPrint ''.'') (asked (asked (emit (NetSend (buffer (netbuf ready))) ready))))"
proof -
  have a: "\<not> checksum_valid example_platform ''EV=1*0A''"
    by (simp add: checksum_valid_def split_last_def checksum_def xdefs)
  have c: "cstr ''EV=1*0A'' 0 = ''EV=1*0A''" by (simp add: cstr_def)
  have e: "(1 :: 8 word) \<noteq> EVENT_ACK example_platform" by (simp add: example_platform_def)
  show ?thesis
    using a c e
      checksum_validation [of example_platform "''EV=1*0A''"
        "quiet_world\<lparr>netSend_at := (\<lambda>k. True), netReceive_at := (\<lambda>k. Some ''EV=1*0A'')\<rparr>"
        ready "''EV=1*0A''" 7 1]
      checksum_validation [of example_platform "''EV=1*0A''"
        "quiet_world\<lparr>netSend_at := (\<lambda>k. True)\<rparr>" ready "''EV=1*0A''" 7 1]
    by (simp add: quiet_world_def)
qed

text \<open>
  C2, the claim refuted: the eleven received bytes \<open>EV=3*0B\<close>, NUL, \<open>*00\<close> split at their
  last \<open>*\<close> into \<open>EV=3*0B\<close> with the NUL, whose 8-bit sum is A7, and the digits \<open>00\<close>; the
  rule of the claim rejects them. \<open>strrchr\<close> stops at the NUL, so \<open>verifyChecksum\<close> splits
  at the first \<open>*\<close>, finds the sum 0B of \<open>EV=3\<close> equal to the digits \<open>0B\<close> and accepts;
  the main loop then parses the datagram as a SYNC event and sets \<open>lastSyncTime\<close>.
\<close>

theorem checksum_split_stops_at_nul:
  "\<not> checksum_valid example_platform (''EV=3*0B'' @ [NUL] @ ''*00'')
   \<and> fst (verifyChecksum example_platform ((''EV=3*0B'' @ [NUL] @ ''*00'') @ [NUL]))
   \<and> loop_datagram example_platform nul_datagram_server 7 ready = Inr ((asked ready)\<lparr>lastSyncTime := 7\<rparr>)"
proof -
  have a: "\<not> checksum_valid example_platform (''EV=3*0B'' @ [NUL] @ ''*00'')"
    by (simp add: checksum_valid_def split_last_def checksum_def xdefs)
  have v: "verifyChecksum example_platform ((''EV=3*0B'' @ [NUL] @ ''*00'') @ [NUL]) =
             (True, ''EV=3'' @ [NUL] @ ''0B'' @ [NUL] @ ''*00'' @ [NUL])"
    by (simp add: verifyChecksum_def cdefs xdefs)
  have f: "strstr (''EV=3'' @ [NUL] @ ''0B'' @ [NUL] @ ''*00'' @ [NUL]) 0 ''EV='' = Some 0"
    "atoi (''EV=3'' @ [NUL] @ ''0B'' @ [NUL] @ ''*00'' @ [NUL]) 3 = 3"
    by (simp_all add: cdefs)
  have w: "netReceive_at nul_datagram_server (tick ready) = Some (''EV=3*0B'' @ [NUL] @ ''*00'')"
    by (simp add: nul_datagram_server_def quiet_world_def)
  have ex: "EVENT_COMMAND example_platform = 5" "EVENT_SYNC example_platform = 3"
    by (simp_all add: example_platform_def)
  have l: "loop_datagram example_platform nul_datagram_server 7 ready = Inr ((asked ready)\<lparr>lastSyncTime := 7\<rparr>)"
    using w v f ex by (simp add: loop_datagram_def Let_def del: append.simps)
  show ?thesis using a v l by simp
qed


section \<open>Vehicle-bus polling: a failed speed read\<close>

text \<open>
  C8. The first call of a polling iteration is the read of the speed parameter. When it
  fails, \<open>processOBD\<close> returns at once: the logger is as before except that one answer has
  been consumed, so nothing was written to the cache, no other parameter was polled, the
  distance and the tier-2 counter did not move.
\<close>

theorem failed_speed_read_aborts_polling:
  "readPID_at w (tick s) (PID_SPEED pf) = None \<Longrightarrow>
     processOBD pf w s = Inr (asked s)
     \<and> cache (asked s) = cache s \<and> count (asked s) = count s
     \<and> distance (asked s) = distance s \<and> trace (asked s) = trace s
     \<and> tick (asked s) = tick s + 1"
  by (simp add: processOBD_def readSpeed_def asked_def)

theorem failed_speed_read_aborts_polling_witness:
  "processOBD example_platform quiet_world ready = Inr (asked ready)
   \<and> cache (asked ready) = cache ready \<and> count (asked ready) = count ready"
  using failed_speed_read_aborts_polling [of quiet_world ready example_platform]
  by (simp add: quiet_world_def)

section \<open>The serial command channel\<close>

lemma executeCommand_serialCommand:
  "serialCommand (state_of_result (executeCommand pf w buf cmd s)) = serialCommand s"
  by (simp add: executeCommand_def obd_command_def state_of_result_def emit_def asked_def
      clearState_def Let_def split: option.split bool.split)

lemma serial_char_bound:
  assumes "length (serialCommand s) \<le> 32"
  shows "length (serialCommand (state_of (serial_char pf w c s))) \<le> 32"
proof (cases "executeCommand pf w (serialCommand s @ [NUL]) 0 s")
  case (Inl stopped)
  obtain st s' where "stopped = (st, s')" by (cases stopped)
  with Inl assms executeCommand_serialCommand [of pf w "serialCommand s @ [NUL]" 0 s]
  show ?thesis by (simp add: serial_char_def state_of_def state_of_result_def)
next
  case (Inr res)
  obtain r s' where "res = (r, s')" by (cases res)
  with Inr assms show ?thesis by (simp add: serial_char_def state_of_def emit_def)
qed

lemma loop_serial_bound:
  "length (serialCommand s) \<le> 32 \<Longrightarrow>
     length (serialCommand (state_of (loop_serial pf w input s))) \<le> 32"
proof (induction input arbitrary: s)
  case Nil
  then show ?case by (simp add: state_of_def)
next
  case (Cons c rest)
  show ?case
  proof (cases "serial_char pf w c s")
    case (Inl stopped)
    then show ?thesis using serial_char_bound [OF Cons.prems, of pf w c] by (simp add: state_of_def)
  next
    case (Inr s1)
    then have "length (serialCommand s1) \<le> 32"
      using serial_char_bound [OF Cons.prems, of pf w c] by (simp add: state_of_def)
    from Cons.IH [OF this] Inr show ?thesis by simp
  qed
qed

lemma loop_serial_append:
  "loop_serial pf w (xs @ ys) s =
     (case loop_serial pf w xs s of Inl stopped \<Rightarrow> Inl stopped | Inr s1 \<Rightarrow> loop_serial pf w ys s1)"
  by (induction xs arbitrary: s) (auto split: sum.splits)

lemma loop_serial_line:
  "CHR 0x0D \<notin> set line \<Longrightarrow> CHR 0x0A \<notin> set line \<Longrightarrow> length (serialCommand s) \<le> 32 \<Longrightarrow>
     loop_serial pf w line s = Inr (s\<lparr>serialCommand := take 32 (serialCommand s @ line)\<rparr>)"
proof (induction line arbitrary: s)
  case Nil
  then show ?case by simp
next
  case (Cons c line)
  show ?case
  proof (cases "length (serialCommand s) < 32")
    case True
    then have step: "serial_char pf w c s = Inr (s\<lparr>serialCommand := serialCommand s @ [c]\<rparr>)"
      using Cons.prems by (auto simp: serial_char_def)
    have "length (serialCommand (s\<lparr>serialCommand := serialCommand s @ [c]\<rparr>)) \<le> 32"
      using True by simp
    from Cons.IH [OF _ _ this] Cons.prems step show ?thesis by simp
  next
    case False
    then have full: "length (serialCommand s) = 32" using Cons.prems by simp
    then have step: "serial_char pf w c s = Inr s"
      using Cons.prems by (auto simp: serial_char_def)
    from Cons.IH [of s] Cons.prems step full show ?thesis by simp
  qed
qed

text \<open>
  C10. The pending command line never exceeds 32 characters. A character other than CR and
  LF that arrives when the line holds 32 is dropped without a trace; a line typed from an
  empty buffer is executed at the newline cut to its first 32 characters; and a CR or LF
  on an empty buffer does nothing at all: no command runs and nothing is printed.
\<close>

theorem serial_command_line_bounded:
  "(length (serialCommand s) \<le> 32 \<longrightarrow>
      length (serialCommand (state_of (loop_serial pf w input s))) \<le> 32)
   \<and> (length (serialCommand s) = 32 \<and> c \<noteq> CHR 0x0D \<and> c \<noteq> CHR 0x0A \<longrightarrow>
        serial_char pf w c s = Inr s)
   \<and> (serialCommand s = [] \<and> line \<noteq> [] \<and> CHR 0x0D \<notin> set line \<and> CHR 0x0A \<notin> set line
        \<and> (nl = CHR 0x0D \<or> nl = CHR 0x0A) \<longrightarrow>
        loop_serial pf w (line @ [nl]) s =
          (case executeCommand pf w (take 32 line @ [NUL]) 0 (s\<lparr>serialCommand := take 32 line\<rparr>) of
             Inl stopped \<Rightarrow> Inl stopped
           | Inr (result, s1) \<Rightarrow> Inr (emit (SerialPrintln result) (s1\<lparr>serialCommand := []\<rparr>))))
   \<and> (serialCommand s = [] \<and> (nl = CHR 0x0D \<or> nl = CHR 0x0A) \<longrightarrow> serial_char pf w nl s = Inr s)"
proof (intro conjI)
  show "length (serialCommand s) \<le> 32 \<longrightarrow>
      length (serialCommand (state_of (loop_serial pf w input s))) \<le> 32"
    using loop_serial_bound by blast
  show "length (serialCommand s) = 32 \<and> c \<noteq> CHR 0x0D \<and> c \<noteq> CHR 0x0A \<longrightarrow>
        serial_char pf w c s = Inr s"
    by (simp add: serial_char_def)
  show "serialCommand s = [] \<and> line \<noteq> [] \<and> CHR 0x0D \<notin> set line \<and> CHR 0x0A \<notin> set line
        \<and> (nl = CHR 0x0D \<or> nl = CHR 0x0A) \<longrightarrow>
        loop_serial pf w (line @ [nl]) s =
          (case executeCommand pf w (take 32 line @ [NUL]) 0 (s\<lparr>serialCommand := take 32 line\<rparr>) of
             Inl stopped \<Rightarrow> Inl stopped
           | Inr (result, s1) \<Rightarrow> Inr (emit (SerialPrintln result) (s1\<lparr>serialCommand := []\<rparr>)))"
  proof (intro impI, elim conjE)
    assume e: "serialCommand s = []" and ne: "line \<noteq> []"
      and cr: "CHR 0x0D \<notin> set line" and lf: "CHR 0x0A \<notin> set line"
      and nl: "nl = CHR 0x0D \<or> nl = CHR 0x0A"
    have l: "loop_serial pf w line s = Inr (s\<lparr>serialCommand := take 32 line\<rparr>)"
      using loop_serial_line [OF cr lf, of s pf w] e by simp
    have pos: "take 32 line \<noteq> []" using ne by (cases line) auto
    have "serial_char pf w nl (s\<lparr>serialCommand := take 32 line\<rparr>) =
          (case executeCommand pf w (take 32 line @ [NUL]) 0 (s\<lparr>serialCommand := take 32 line\<rparr>) of
             Inl stopped \<Rightarrow> Inl stopped
           | Inr (result, s1) \<Rightarrow> Inr (emit (SerialPrintln result) (s1\<lparr>serialCommand := []\<rparr>)))"
      using nl pos unfolding serial_char_def by (simp split: sum.split)
    then show "loop_serial pf w (line @ [nl]) s =
          (case executeCommand pf w (take 32 line @ [NUL]) 0 (s\<lparr>serialCommand := take 32 line\<rparr>) of
             Inl stopped \<Rightarrow> Inl stopped
           | Inr (result, s1) \<Rightarrow> Inr (emit (SerialPrintln result) (s1\<lparr>serialCommand := []\<rparr>)))"
      by (simp add: loop_serial_append l split: sum.split)
  qed
  show "serialCommand s = [] \<and> (nl = CHR 0x0D \<or> nl = CHR 0x0A) \<longrightarrow> serial_char pf w nl s = Inr s"
    by (auto simp: serial_char_def)
qed


theorem serial_command_line_bounded_witness:
  "length (serialCommand (state_of
      (loop_serial example_platform quiet_world (replicate 40 (CHR ''x'')) ready))) \<le> 32
   \<and> serial_char example_platform quiet_world (CHR ''y'')
        (ready\<lparr>serialCommand := replicate 32 (CHR ''x'')\<rparr>) =
        Inr (ready\<lparr>serialCommand := replicate 32 (CHR ''x'')\<rparr>)
   \<and> loop_serial example_platform quiet_world (replicate 40 (CHR ''x'') @ [CHR 0x0A]) ready =
        (case executeCommand example_platform quiet_world (replicate 32 (CHR ''x'') @ [NUL]) 0
                (ready\<lparr>serialCommand := replicate 32 (CHR ''x'')\<rparr>) of
           Inl stopped \<Rightarrow> Inl stopped
         | Inr (result, s1) \<Rightarrow> Inr (emit (SerialPrintln result) (s1\<lparr>serialCommand := []\<rparr>)))
   \<and> serial_char example_platform quiet_world (CHR 0x0A) ready = Inr ready"
proof -
  have e: "serialCommand ready = []" by (simp add: ready_def boot_def)
  have t: "take 32 (replicate 40 (CHR ''x'')) = replicate 32 (CHR ''x'')" by simp
  show ?thesis
    using e t
      serial_command_line_bounded [of ready example_platform quiet_world
        "replicate 40 (CHR ''x'')" "CHR ''y''" "replicate 40 (CHR ''x'')" "CHR 0x0A"]
      serial_command_line_bounded [of "ready\<lparr>serialCommand := replicate 32 (CHR ''x'')\<rparr>"
        example_platform quiet_world "[]" "CHR ''y''" "[]" "CHR 0x0A"]
    by simp
qed


section \<open>A failed transmission\<close>

lemma hex_digit_plain:
  assumes "k < 16"
  shows "''0123456789ABCDEF'' ! k \<noteq> CHR ''*'' \<and> ''0123456789ABCDEF'' ! k \<noteq> NUL"
proof -
  define ds where "ds = ''0123456789ABCDEF''"
  have all: "\<forall>c \<in> set ds. c \<noteq> CHR ''*'' \<and> c \<noteq> NUL" unfolding ds_def by simp
  have "length ds = 16" unfolding ds_def by simp
  with assms have "ds ! k \<in> set ds" by simp
  with all have "ds ! k \<noteq> CHR ''*'' \<and> ds ! k \<noteq> NUL" by (rule bspec)
  then show ?thesis unfolding ds_def .
qed

lemma hex_plain: "CHR ''*'' \<notin> set (hex n) \<and> NUL \<notin> set (hex n)"
proof (induction n rule: hex.induct)
  case (1 n)
  show ?case
  proof (cases "n < 16")
    case True
    have "hex n = [''0123456789ABCDEF'' ! n]" using True by (subst hex.simps) simp
    with hex_digit_plain [OF True] show ?thesis by auto
  next
    case False
    have m: "n mod 16 < 16" by simp
    have "hex n = hex (n div 16) @ [''0123456789ABCDEF'' ! (n mod 16)]"
      using False by (subst hex.simps) simp
    with hex_digit_plain [OF m] 1 [OF False] show ?thesis by auto
  qed
qed

lemma trailer_plain:
  "CHR ''*'' \<notin> set (pad0 2 (hex n))" "NUL \<notin> set (pad0 2 (hex n))"
  using hex_plain [of n] by (auto simp: pad0_def)

lemma untailer_tailer:
  assumes "NUL \<notin> set (m_cache st)"
  shows "untailer (tailer st) = st"
proof -
  define tr where "tr = pad0 2 (hex (unat (checksum (m_cache st))))"
  have tr: "CHR ''*'' \<notin> set tr" "NUL \<notin> set tr" unfolding tr_def by (rule trailer_plain)+
  have "\<forall>x \<in> set (m_cache st @ CHR ''*'' # tr). x \<noteq> NUL" using assms tr(2) by auto
  then have "takeWhile (\<lambda>x. x \<noteq> NUL) (m_cache st @ CHR ''*'' # tr) = m_cache st @ CHR ''*'' # tr"
    by (simp only: takeWhile_eq_all_conv)
  then have "strrchr_scan (m_cache st @ CHR ''*'' # tr) (CHR ''*'') 0 None = Some (0 + length (m_cache st))"
    using tr(1) by (intro strrchr_scan_split) auto
  then have "strrchr (m_cache (tailer st)) 0 (CHR ''*'') = Some (length (m_cache st))"
    by (simp add: tailer_def strrchr_def tr_def)
  then show ?thesis
    by (simp add: untailer_def) (simp add: tailer_def)
qed

lemma samples_untailer_tailer: "samples (untailer (tailer st)) = samples st"
  by (simp add: untailer_def tailer_def samples_def split: option.split)


lemma loop_transmit_failed:
  assumes "\<not> (SERVER_SYNC_INTERVAL pf \<noteq> 0
              \<and> t - lastSyncTime s \<ge> word_of_nat (SERVER_SYNC_INTERVAL pf * 1000))"
    and "t - lastSentTime s \<ge> word_of_nat (DATA_SENDING_INTERVAL pf)"
    and "samples (cache s) > 0"
    and "\<not> netSend_at w (tick s)"
  shows "loop_transmit pf w t s =
     (let s1 = (if m_ledMode s = 0 then emit (DigitalWrite PIN_LED True) s else s);
          s2 = emit (SerialPrint ''] '')
                 (emit (SerialPrint (dec (txCount s1))) (emit (SerialPrint ''['') s1));
          s4 = asked (emit (NetSend (buffer (tailer (cache s)))) (s2\<lparr>cache := tailer (cache s)\<rparr>));
          s5 = (emit (BlePrint ''Unsent'')
                  (emit (SerialPrintln ''Unsent'') (s4\<lparr>connErrors := connErrors s + 1\<rparr>)))
                 \<lparr>cache := untailer (tailer (cache s))\<rparr>;
          s6 = (if m_ledMode s = 0 then emit (DigitalWrite PIN_LED False) s5 else s5);
          s7 = (if connErrors s + 1 \<ge> MAX_CONN_ERRORS_RECONNECT pf
                then (asked (emit NetOpen (emit NetClose s6)))\<lparr>lastSyncTime := 0\<rparr>
                else s6)
      in s7\<lparr>lastSentTime := t\<rparr>)"
proof -
  have no: "(SERVER_SYNC_INTERVAL pf \<noteq> 0
              \<and> t - lastSyncTime s \<ge> word_of_nat (SERVER_SYNC_INTERVAL pf * 1000)) = False"
    using assms(1) by blast
  have yes: "(t - lastSentTime s \<ge> word_of_nat (DATA_SENDING_INTERVAL pf)
              \<and> samples (cache s) > 0) = True"
    using assms(2,3) by blast
  show ?thesis
    unfolding loop_transmit_def no yes
    using assms(4)
    by (simp add: Let_def)
qed

text \<open>
  C4. A send cycle whose transmission fails increments the connection error counter and
  unseals the cache: the sample count is what it was before sealing (and so is the whole
  buffer, when it holds text). If the counter has then reached the reconnect threshold the
  link is closed and reopened and the last-sync time is cleared; below the threshold the
  link is left alone.
\<close>

theorem failed_transmission_keeps_samples:
  assumes "\<not> (SERVER_SYNC_INTERVAL pf \<noteq> 0
              \<and> t - lastSyncTime s \<ge> word_of_nat (SERVER_SYNC_INTERVAL pf * 1000))"
    and "t - lastSentTime s \<ge> word_of_nat (DATA_SENDING_INTERVAL pf)"
    and "samples (cache s) > 0"
    and "\<not> netSend_at w (tick s)"
  shows "connErrors (loop_transmit pf w t s) = connErrors s + 1
    \<and> cache (loop_transmit pf w t s) = untailer (tailer (cache s))
    \<and> samples (cache (loop_transmit pf w t s)) = samples (cache s)
    \<and> (NUL \<notin> set (buffer (cache s)) \<longrightarrow> cache (loop_transmit pf w t s) = cache s)
    \<and> (connErrors s + 1 \<ge> MAX_CONN_ERRORS_RECONNECT pf \<longrightarrow>
         lastSyncTime (loop_transmit pf w t s) = 0
         \<and> (\<exists>before. trace (loop_transmit pf w t s) = before @ [NetClose, NetOpen]))
    \<and> (connErrors s + 1 < MAX_CONN_ERRORS_RECONNECT pf \<longrightarrow>
         lastSyncTime (loop_transmit pf w t s) = lastSyncTime s
         \<and> NetClose \<notin> set (drop (length (trace s)) (trace (loop_transmit pf w t s)))
         \<and> NetOpen \<notin> set (drop (length (trace s)) (trace (loop_transmit pf w t s))))"
proof -
  define s' where "s' = loop_transmit pf w t s"
  have eq: "s' = (let s1 = (if m_ledMode s = 0 then emit (DigitalWrite PIN_LED True) s else s);
          s2 = emit (SerialPrint ''] '')
                 (emit (SerialPrint (dec (txCount s1))) (emit (SerialPrint ''['') s1));
          s4 = asked (emit (NetSend (buffer (tailer (cache s)))) (s2\<lparr>cache := tailer (cache s)\<rparr>));
          s5 = (emit (BlePrint ''Unsent'')
                  (emit (SerialPrintln ''Unsent'') (s4\<lparr>connErrors := connErrors s + 1\<rparr>)))
                 \<lparr>cache := untailer (tailer (cache s))\<rparr>;
          s6 = (if m_ledMode s = 0 then emit (DigitalWrite PIN_LED False) s5 else s5);
          s7 = (if connErrors s + 1 \<ge> MAX_CONN_ERRORS_RECONNECT pf
                then (asked (emit NetOpen (emit NetClose s6)))\<lparr>lastSyncTime := 0\<rparr>
                else s6)
      in s7\<lparr>lastSentTime := t\<rparr>)"
    unfolding s'_def using assms by (rule loop_transmit_failed)
  have c: "cache s' = untailer (tailer (cache s))"
    unfolding eq by (simp add: Let_def)
  have e: "connErrors s' = connErrors s + 1"
    unfolding eq by (simp add: Let_def)
  have r1: "connErrors s + 1 \<ge> MAX_CONN_ERRORS_RECONNECT pf \<longrightarrow> lastSyncTime s' = 0"
    unfolding eq by (simp add: Let_def)
  have r2: "connErrors s + 1 \<ge> MAX_CONN_ERRORS_RECONNECT pf \<longrightarrow>
              (\<exists>before. trace s' = before @ [NetClose, NetOpen])"
    unfolding eq by (simp add: Let_def)
  have n1: "connErrors s + 1 < MAX_CONN_ERRORS_RECONNECT pf \<longrightarrow> lastSyncTime s' = lastSyncTime s"
    unfolding eq by (simp add: Let_def)
  have n2: "connErrors s + 1 < MAX_CONN_ERRORS_RECONNECT pf \<longrightarrow>
         NetClose \<notin> set (drop (length (trace s)) (trace s'))
         \<and> NetOpen \<notin> set (drop (length (trace s)) (trace s'))"
    unfolding eq by (simp add: Let_def)
  show ?thesis
    using c e r1 r2 n1 n2 untailer_tailer [of "cache s"] samples_untailer_tailer [of "cache s"]
    unfolding s'_def by (simp add: buffer_def)
qed


theorem failed_transmission_keeps_samples_witness:
  "connErrors (loop_transmit example_platform quiet_world 5000 cached) = 3
   \<and> samples (cache (loop_transmit example_platform quiet_world 5000 cached)) = 1
   \<and> cache (loop_transmit example_platform quiet_world 5000 cached) = cache cached
   \<and> lastSyncTime (loop_transmit example_platform quiet_world 5000 cached) = 0
   \<and> (\<exists>before. trace (loop_transmit example_platform quiet_world 5000 cached) =
         before @ [NetClose, NetOpen])"
proof -
  have 1: "\<not> (SERVER_SYNC_INTERVAL example_platform \<noteq> 0
              \<and> 5000 - lastSyncTime cached \<ge> word_of_nat (SERVER_SYNC_INTERVAL example_platform * 1000))"
    by (simp add: example_platform_def cached_def ready_def boot_def)
  have 2: "5000 - lastSentTime cached \<ge> word_of_nat (DATA_SENDING_INTERVAL example_platform)"
    by (simp add: example_platform_def cached_def ready_def boot_def)
  have 3: "samples (cache cached) > 0"
    by (simp add: samples_def cached_def)
  have 4: "\<not> netSend_at quiet_world (tick cached)"
    by (simp add: quiet_world_def)
  have 5: "NUL \<notin> set (buffer (cache cached))"
    by (simp add: buffer_def cached_def)
  have 6: "connErrors cached = 2" "samples (cache cached) = 1"
    "MAX_CONN_ERRORS_RECONNECT example_platform = 3"
    by (simp_all add: cached_def samples_def example_platform_def)
  note T = failed_transmission_keeps_samples [OF 1 2 3 4]
  have a: "connErrors (loop_transmit example_platform quiet_world 5000 cached) = 3"
    using T [THEN conjunct1] 6 by simp
  have b: "samples (cache (loop_transmit example_platform quiet_world 5000 cached)) = 1"
    using T [THEN conjunct2, THEN conjunct2, THEN conjunct1] 6 by simp
  have c: "cache (loop_transmit example_platform quiet_world 5000 cached) = cache cached"
    using T [THEN conjunct2, THEN conjunct2, THEN conjunct2, THEN conjunct1] 5 by blast
  have d: "lastSyncTime (loop_transmit example_platform quiet_world 5000 cached) = 0
      \<and> (\<exists>before. trace (loop_transmit example_platform quiet_world 5000 cached) =
            before @ [NetClose, NetOpen])"
    using T [THEN conjunct2, THEN conjunct2, THEN conjunct2, THEN conjunct2, THEN conjunct1] 6
    by simp
  from a b c d show ?thesis by blast
qed


section \<open>Three attempts\<close>

lemma attempts3_3: "attempts3 body (Suc (Suc (Suc 0))) s = (None, s)"
  by (subst attempts3.simps) (simp add: numeral_3_eq_3)

lemma attempts3_2:
  "attempts3 body (Suc (Suc 0)) s =
     (case body s of
        Continue s' \<Rightarrow> (None, s')
      | Break s' \<Rightarrow> (None, s')
      | Return r s' \<Rightarrow> (Some r, s'))"
  by (subst attempts3.simps) (simp add: attempts3_3 numeral_3_eq_3 split: flow.split)

lemma attempts3_1:
  "attempts3 body (Suc 0) s =
     (case body s of
        Continue s' \<Rightarrow> attempts3 body (Suc (Suc 0)) s'
      | Break s' \<Rightarrow> (None, s')
      | Return r s' \<Rightarrow> (Some r, s'))"
  by (subst attempts3.simps) (simp split: flow.split)

lemma attempts3_0:
  "attempts3 body 0 s =
     (case body s of
        Continue s' \<Rightarrow> attempts3 body (Suc 0) s'
      | Break s' \<Rightarrow> (None, s')
      | Return r s' \<Rightarrow> (Some r, s'))"
  by (subst attempts3.simps) (simp split: flow.split)

lemma attempts3_continue:
  assumes "body s = Continue s1" and "body s1 = Continue s2" and "body s2 = Continue s3"
  shows "attempts3 body 0 s = (None, s3)"
  using assms by (simp add: attempts3_0 attempts3_1 attempts3_2)

lemma attempts3_frame2:
  assumes "\<And>s. f (flow_state (body s)) = f s"
  shows "f (snd (attempts3 body (Suc (Suc 0)) s)) = f s"
  using assms [of s] by (simp add: attempts3_2 flow_state_def split: flow.splits)

lemma attempts3_frame1:
  assumes "\<And>s. f (flow_state (body s)) = f s"
  shows "f (snd (attempts3 body (Suc 0) s)) = f s"
proof (cases "body s")
  case (Continue s')
  have "f s' = f s" using assms [of s] by (simp add: Continue flow_state_def)
  with attempts3_frame2 [of f body s', OF assms] Continue show ?thesis
    by (simp add: attempts3_1)
next
  case (Break s')
  then show ?thesis using assms [of s] by (simp add: attempts3_1 flow_state_def)
next
  case (Return r s')
  then show ?thesis using assms [of s] by (simp add: attempts3_1 flow_state_def)
qed

lemma attempts3_frame:
  assumes "\<And>s. f (flow_state (body s)) = f s"
  shows "f (snd (attempts3 body 0 s)) = f s"
proof (cases "body s")
  case (Continue s')
  have "f s' = f s" using assms [of s] by (simp add: Continue flow_state_def)
  with attempts3_frame1 [of f body s', OF assms] Continue show ?thesis
    by (simp add: attempts3_0)
next
  case (Break s')
  then show ?thesis using assms [of s] by (simp add: attempts3_0 flow_state_def)
next
  case (Return r s')
  then show ?thesis using assms [of s] by (simp add: attempts3_0 flow_state_def)
qed

section \<open>Request and reply\<close>

lemma login_reply_frame:
  "m_state (login_reply pf data s) = m_state s"
  "filter is_NetSend (trace (login_reply pf data s)) = filter is_NetSend (trace s)"
  "filter (\<lambda>e. e = NetOpen) (trace (login_reply pf data s)) = filter (\<lambda>e. e = NetOpen) (trace s)"
  by (simp_all add: login_reply_def Let_def emit_def split: option.split)

lemma notifyServer_attempt_frame:
  "m_state (flow_state (notifyServer_attempt pf w ev s)) = m_state s"
  "sends (flow_state (notifyServer_attempt pf w ev s)) = Suc (sends s)"
  "opens (flow_state (notifyServer_attempt pf w ev s)) = opens s"
  by (simp_all add: notifyServer_attempt_def flow_state_def Let_def login_reply_frame
      sends_def opens_def emit_def asked_def split: option.split prod.split)


lemma notifyServer_unfold:
  "notifyServer pf w ev serverKey payload s =
     (case attempts3 (notifyServer_attempt pf w ev) 0
             ((asked s)\<lparr>netbuf := tailer (dispatch (request ev (millis_at w (tick s)) serverKey payload)
                                              (header (feedid s) (netbuf s)))\<rparr>) of
        (Some r, s') \<Rightarrow> (r, s')
      | (None, s') \<Rightarrow> (False, s'))"
  by (simp add: notifyServer_def Let_def)

lemma notifyServer_snd:
  "snd (notifyServer pf w ev serverKey payload s) =
     snd (attempts3 (notifyServer_attempt pf w ev) 0
            ((asked s)\<lparr>netbuf := tailer (dispatch (request ev (millis_at w (tick s)) serverKey payload)
                                             (header (feedid s) (netbuf s)))\<rparr>))"
  by (simp add: notifyServer_unfold split: prod.split option.split)

lemma notifyServer_frame:
  "m_state (snd (notifyServer pf w ev serverKey payload s)) = m_state s"
  "opens (snd (notifyServer pf w ev serverKey payload s)) = opens s"
proof -
  define s0 where "s0 = (asked s)\<lparr>netbuf := tailer (dispatch (request ev (millis_at w (tick s)) serverKey payload)
                                              (header (feedid s) (netbuf s)))\<rparr>"
  have s0: "m_state s0 = m_state s" "opens s0 = opens s"
    by (simp_all add: s0_def opens_def asked_def)
  have "m_state (snd (attempts3 (notifyServer_attempt pf w ev) 0 s0)) = m_state s0"
    by (rule attempts3_frame) (rule notifyServer_attempt_frame)
  then show "m_state (snd (notifyServer pf w ev serverKey payload s)) = m_state s"
    unfolding notifyServer_snd s0_def [symmetric] using s0 by simp
  have "opens (snd (attempts3 (notifyServer_attempt pf w ev) 0 s0)) = opens s0"
    by (rule attempts3_frame) (rule notifyServer_attempt_frame)
  then show "opens (snd (notifyServer pf w ev serverKey payload s)) = opens s"
    unfolding notifyServer_snd s0_def [symmetric] using s0 by simp
qed

lemma notifyServer_attempt_rejected:
  assumes "ev \<noteq> EVENT_ACK pf"
    and "\<forall>k bytes. netReceive_at w k = Some bytes \<and> fst (verifyChecksum pf (bytes @ [NUL])) \<longrightarrow>
           strstr (snd (verifyChecksum pf (bytes @ [NUL]))) 0 (''EV='' @ dec (unat ev)) = None"
  shows "\<exists>s'. notifyServer_attempt pf w ev s = Continue s' \<and> connErrors s' = connErrors s
           \<and> feedid s' = feedid s \<and> sends s' = Suc (sends s)"
proof -
  have "\<exists>s'. notifyServer_attempt pf w ev s = Continue s' \<and> connErrors s' = connErrors s
           \<and> feedid s' = feedid s"
  proof (cases "netSend_at w (tick s)")
    case False
    then show ?thesis by (simp add: notifyServer_attempt_def Let_def)
  next
    case True
    show ?thesis
    proof (cases "netReceive_at w (Suc (tick s))")
      case None
      with True assms(1) show ?thesis by (simp add: notifyServer_attempt_def Let_def)
    next
      case (Some bytes)
      obtain valid data where vc: "verifyChecksum pf (bytes @ [NUL]) = (valid, data)"
        by (cases "verifyChecksum pf (bytes @ [NUL])")
      show ?thesis
      proof (cases valid)
        case False
        with True Some assms(1) vc show ?thesis
          by (simp add: notifyServer_attempt_def Let_def)
      next
        case valid: True
        with assms(2) Some vc
        have "strstr data 0 (''EV='' @ dec (unat ev)) = None"
          by fastforce
        with True Some assms(1) valid vc show ?thesis
          by (simp add: notifyServer_attempt_def Let_def)
      qed
    qed
  qed
  then obtain s' where s': "notifyServer_attempt pf w ev s = Continue s'"
    "connErrors s' = connErrors s" "feedid s' = feedid s" by blast
  have "sends (flow_state (notifyServer_attempt pf w ev s)) = Suc (sends s)"
    by (rule notifyServer_attempt_frame)
  with s' show ?thesis by (simp add: flow_state_def)
qed

lemma notifyServer_rejected:
  assumes "ev \<noteq> EVENT_ACK pf"
    and "\<forall>k bytes. netReceive_at w k = Some bytes \<and> fst (verifyChecksum pf (bytes @ [NUL])) \<longrightarrow>
           strstr (snd (verifyChecksum pf (bytes @ [NUL]))) 0 (''EV='' @ dec (unat ev)) = None"
  shows "fst (notifyServer pf w ev serverKey payload s) = False"
    and "sends (snd (notifyServer pf w ev serverKey payload s)) = sends s + 3"
    and "connErrors (snd (notifyServer pf w ev serverKey payload s)) = connErrors s"
    and "feedid (snd (notifyServer pf w ev serverKey payload s)) = feedid s"
proof -
  define s0 where "s0 = (asked s)\<lparr>netbuf := tailer (dispatch (request ev (millis_at w (tick s)) serverKey payload)
                                              (header (feedid s) (netbuf s)))\<rparr>"
  have s0: "sends s0 = sends s" "connErrors s0 = connErrors s" "feedid s0 = feedid s"
    by (simp_all add: s0_def sends_def asked_def)
  from notifyServer_attempt_rejected [OF assms, of s0] obtain s1 where
    s1: "notifyServer_attempt pf w ev s0 = Continue s1" "connErrors s1 = connErrors s0"
        "feedid s1 = feedid s0" "sends s1 = Suc (sends s0)" by blast
  from notifyServer_attempt_rejected [OF assms, of s1] obtain s2 where
    s2: "notifyServer_attempt pf w ev s1 = Continue s2" "connErrors s2 = connErrors s1"
        "feedid s2 = feedid s1" "sends s2 = Suc (sends s1)" by blast
  from notifyServer_attempt_rejected [OF assms, of s2] obtain s3 where
    s3: "notifyServer_attempt pf w ev s2 = Continue s3" "connErrors s3 = connErrors s2"
        "feedid s3 = feedid s2" "sends s3 = Suc (sends s2)" by blast
  have r: "notifyServer pf w ev serverKey payload s = (False, s3)"
    unfolding notifyServer_unfold s0_def [symmetric]
    using attempts3_continue [OF s1(1) s2(1) s3(1)] by simp
  show "fst (notifyServer pf w ev serverKey payload s) = False" using r by simp
  show "sends (snd (notifyServer pf w ev serverKey payload s)) = sends s + 3"
    using r s0 s1 s2 s3 by simp
  show "connErrors (snd (notifyServer pf w ev serverKey payload s)) = connErrors s"
    using r s0 s1 s2 s3 by simp
  show "feedid (snd (notifyServer pf w ev serverKey payload s)) = feedid s"
    using r s0 s1 s2 s3 by simp
qed

text \<open>
  C6. In a round trip of \<open>notifyServer\<close> (any event but the acknowledgment, which awaits
  no reply), a reply that passes the checksum but whose payload does not contain
  \<open>EV=<n>\<close> for the event of the request makes the attempt fail: "Invalid reply" is
  printed and the loop goes on to its next attempt. When every reply is of this kind the
  request is sent three times and \<open>notifyServer\<close> returns failure without touching the
  error counter; so a success always rests on a reply that echoes the event.
\<close>

theorem reply_without_event_echo_is_retried:
  assumes "ev \<noteq> EVENT_ACK pf"
  shows "(netSend_at w (tick s) \<and> netReceive_at w (Suc (tick s)) = Some bytes
          \<and> fst (verifyChecksum pf (bytes @ [NUL]))
          \<and> strstr (snd (verifyChecksum pf (bytes @ [NUL]))) 0 (''EV='' @ dec (unat ev)) = None \<longrightarrow>
          notifyServer_attempt pf w ev s =
            Continue (emit (SerialPrint ''Invalid reply'')
                        (asked (asked (emit (NetSend (buffer (netbuf s))) s)))))
    \<and> ((\<forall>k reply. netReceive_at w k = Some reply \<and> fst (verifyChecksum pf (reply @ [NUL])) \<longrightarrow>
            strstr (snd (verifyChecksum pf (reply @ [NUL]))) 0 (''EV='' @ dec (unat ev)) = None) \<longrightarrow>
          fst (notifyServer pf w ev serverKey payload s) = False
          \<and> sends (snd (notifyServer pf w ev serverKey payload s)) = sends s + 3
          \<and> connErrors (snd (notifyServer pf w ev serverKey payload s)) = connErrors s)
    \<and> (fst (notifyServer pf w ev serverKey payload s) \<longrightarrow>
          (\<exists>k reply. netReceive_at w k = Some reply \<and> fst (verifyChecksum pf (reply @ [NUL]))
             \<and> strstr (snd (verifyChecksum pf (reply @ [NUL]))) 0 (''EV='' @ dec (unat ev)) \<noteq> None))"
proof (intro conjI)
  show "netSend_at w (tick s) \<and> netReceive_at w (Suc (tick s)) = Some bytes
          \<and> fst (verifyChecksum pf (bytes @ [NUL]))
          \<and> strstr (snd (verifyChecksum pf (bytes @ [NUL]))) 0 (''EV='' @ dec (unat ev)) = None \<longrightarrow>
          notifyServer_attempt pf w ev s =
            Continue (emit (SerialPrint ''Invalid reply'')
                        (asked (asked (emit (NetSend (buffer (netbuf s))) s))))"
    using assms by (cases "verifyChecksum pf (bytes @ [NUL])")
      (simp add: notifyServer_attempt_def Let_def)
  show "(\<forall>k reply. netReceive_at w k = Some reply \<and> fst (verifyChecksum pf (reply @ [NUL])) \<longrightarrow>
            strstr (snd (verifyChecksum pf (reply @ [NUL]))) 0 (''EV='' @ dec (unat ev)) = None) \<longrightarrow>
          fst (notifyServer pf w ev serverKey payload s) = False
          \<and> sends (snd (notifyServer pf w ev serverKey payload s)) = sends s + 3
          \<and> connErrors (snd (notifyServer pf w ev serverKey payload s)) = connErrors s"
    using notifyServer_rejected(1-3) [OF assms, of w serverKey payload s] by blast
  show "fst (notifyServer pf w ev serverKey payload s) \<longrightarrow>
          (\<exists>k reply. netReceive_at w k = Some reply \<and> fst (verifyChecksum pf (reply @ [NUL]))
             \<and> strstr (snd (verifyChecksum pf (reply @ [NUL]))) 0 (''EV='' @ dec (unat ev)) \<noteq> None)"
    using notifyServer_rejected(1) [OF assms, of w serverKey payload s] by blast
qed


theorem reply_without_event_echo_is_retried_witness:
  "notifyServer_attempt example_platform
     (quiet_world\<lparr>netSend_at := (\<lambda>k. True), netReceive_at := (\<lambda>k. Some ''EV=2*0A'')\<rparr>) 1 ready =
     Continue (emit (SerialPrint ''Invalid reply'')
                 (asked (asked (emit (NetSend (buffer (netbuf ready))) ready))))
   \<and> fst (notifyServer example_platform
        (quiet_world\<lparr>netSend_at := (\<lambda>k. True), netReceive_at := (\<lambda>k. Some ''EV=2*0A'')\<rparr>)
        1 (Some ''KEY'') None ready) = False
   \<and> sends (snd (notifyServer example_platform
        (quiet_world\<lparr>netSend_at := (\<lambda>k. True), netReceive_at := (\<lambda>k. Some ''EV=2*0A'')\<rparr>)
        1 (Some ''KEY'') None ready)) = 3"
proof -
  define w where "w = quiet_world\<lparr>netSend_at := (\<lambda>k. True), netReceive_at := (\<lambda>k. Some ''EV=2*0A'')\<rparr>"
  have ack: "(1 :: 8 word) \<noteq> EVENT_ACK example_platform"
    by (simp add: example_platform_def)
  have v: "verifyChecksum example_platform (''EV=2*0A'' @ [NUL]) = (True, ''EV=2'' @ [NUL] @ ''0A'' @ [NUL])"
    by (simp add: verifyChecksum_def cdefs xdefs)
  have p: "strstr (''EV=2'' @ [NUL] @ ''0A'' @ [NUL]) 0 (''EV='' @ dec (unat (1 :: 8 word))) = None"
    by (simp add: strstr_def cstr_def dec.simps)
  have snd: "netSend_at w (tick ready)" by (simp add: w_def quiet_world_def)
  have rcv: "netReceive_at w (Suc (tick ready)) = Some ''EV=2*0A''" by (simp add: w_def quiet_world_def)
  have all: "\<forall>k reply. netReceive_at w k = Some reply \<and> fst (verifyChecksum example_platform (reply @ [NUL])) \<longrightarrow>
            strstr (snd (verifyChecksum example_platform (reply @ [NUL]))) 0 (''EV='' @ dec (unat (1 :: 8 word))) = None"
    using v p by (auto simp: w_def quiet_world_def)
  have z: "sends ready = 0" by (simp add: sends_def ready_def boot_def)
  note T = reply_without_event_echo_is_retried [OF ack, of w ready "''EV=2*0A''" "Some ''KEY''" None]
  have a: "notifyServer_attempt example_platform w 1 ready =
     Continue (emit (SerialPrint ''Invalid reply'')
                 (asked (asked (emit (NetSend (buffer (netbuf ready))) ready))))"
    using T [THEN conjunct1] snd rcv v p by simp
  have b: "fst (notifyServer example_platform w 1 (Some ''KEY'') None ready) = False
     \<and> sends (snd (notifyServer example_platform w 1 (Some ''KEY'') None ready)) = 3"
    using T [THEN conjunct2, THEN conjunct1] all z by simp
  from a b show ?thesis unfolding w_def by blast
qed


section \<open>Login against a server whose replies are corrupted\<close>

lemma sends_emit [simp]:
  "sends (emit e s) = (if is_NetSend e then Suc (sends s) else sends s)"
  by (simp add: sends_def)

lemma opens_emit [simp]:
  "opens (emit e s) = (if e = NetOpen then Suc (opens s) else opens s)"
  by (simp add: opens_def)

lemma login_data_frame:
  "m_state (snd (login_data pf w s)) = m_state s"
  "sends (snd (login_data pf w s)) = sends s"
  "opens (snd (login_data pf w s)) = opens s"
  by (simp_all add: login_data_def Let_def sends_def opens_def emit_def asked_def
      split: option.split prod.split)

lemma login_attempt_corrupted:
  assumes "EVENT_LOGIN pf \<noteq> EVENT_ACK pf"
    and "\<forall>k bytes. netReceive_at w k = Some bytes \<longrightarrow> \<not> fst (verifyChecksum pf (bytes @ [NUL]))"
  shows "\<exists>s'. login_attempt pf w data s = Continue s' \<and> m_state s' = m_state s
           \<and> opens s' = Suc (opens s)
           \<and> sends s' = sends s + (if netOpen_at w (tick s) then 3 else 0)"
proof (cases "netOpen_at w (tick s)")
  case False
  then show ?thesis
    by (simp add: login_attempt_def Let_def sends_def opens_def emit_def asked_def)
next
  case True
  define s2 where "s2 = asked (emit NetOpen (emit (SerialPrint ''LOGIN...'') s))"
  have s2: "m_state s2 = m_state s" "opens s2 = Suc (opens s)" "sends s2 = sends s"
    by (simp_all add: s2_def sends_def opens_def emit_def asked_def)
  have rej: "\<forall>k bytes. netReceive_at w k = Some bytes \<and> fst (verifyChecksum pf (bytes @ [NUL])) \<longrightarrow>
           strstr (snd (verifyChecksum pf (bytes @ [NUL]))) 0 (''EV='' @ dec (unat (EVENT_LOGIN pf))) = None"
    using assms(2) by blast
  obtain r s3 where n: "notifyServer pf w (EVENT_LOGIN pf) (SERVER_KEY pf) (Some data) s2 = (r, s3)"
    by (cases "notifyServer pf w (EVENT_LOGIN pf) (SERVER_KEY pf) (Some data) s2")
  have r: "r = False" and sn: "sends s3 = sends s2 + 3"
    using notifyServer_rejected(1,2) [OF assms(1) rej, of "SERVER_KEY pf" "Some data" s2] n by simp_all
  have fr: "m_state s3 = m_state s2" "opens s3 = opens s2"
    using notifyServer_frame [of pf w "EVENT_LOGIN pf" "SERVER_KEY pf" "Some data" s2] n by simp_all
  have "login_attempt pf w data s = Continue (emit (SerialPrintln ''NO'') (emit NetClose s3))"
    using True n r by (simp add: login_attempt_def Let_def s2_def)
  then show ?thesis
    using True s2 sn fr by simp
qed

lemma login_corrupted:
  assumes "EVENT_LOGIN pf \<noteq> EVENT_ACK pf"
    and "\<forall>k bytes. netReceive_at w k = Some bytes \<longrightarrow> \<not> fst (verifyChecksum pf (bytes @ [NUL]))"
  shows "fst (login pf w s) = False"
    and "m_state (snd (login pf w s)) = m_state s"
    and "opens (snd (login pf w s)) = opens s + 3"
    and "sends (snd (login pf w s)) \<le> sends s + 9"
    and "(\<forall>k. netOpen_at w k) \<longrightarrow> sends (snd (login pf w s)) = sends s + 9"
proof -
  obtain data s0 where d: "login_data pf w s = (data, s0)" by (cases "login_data pf w s")
  have s0: "m_state s0 = m_state s" "sends s0 = sends s" "opens s0 = opens s"
    using login_data_frame [of pf w s] d by simp_all
  from login_attempt_corrupted [OF assms, of data s0] obtain s1 where
    s1: "login_attempt pf w data s0 = Continue s1" "m_state s1 = m_state s0"
        "opens s1 = Suc (opens s0)"
        "sends s1 = sends s0 + (if netOpen_at w (tick s0) then 3 else 0)" by blast
  from login_attempt_corrupted [OF assms, of data s1] obtain s2 where
    s2: "login_attempt pf w data s1 = Continue s2" "m_state s2 = m_state s1"
        "opens s2 = Suc (opens s1)"
        "sends s2 = sends s1 + (if netOpen_at w (tick s1) then 3 else 0)" by blast
  from login_attempt_corrupted [OF assms, of data s2] obtain s3 where
    s3: "login_attempt pf w data s2 = Continue s3" "m_state s3 = m_state s2"
        "opens s3 = Suc (opens s2)"
        "sends s3 = sends s2 + (if netOpen_at w (tick s2) then 3 else 0)" by blast
  have r: "login pf w s = (False, s3)"
    using d attempts3_continue [OF s1(1) s2(1) s3(1)] by (simp add: login_def)
  show "fst (login pf w s) = False" using r by simp
  show "m_state (snd (login pf w s)) = m_state s" using r s0 s1 s2 s3 by simp
  show "opens (snd (login pf w s)) = opens s + 3" using r s0 s1 s2 s3 by simp
  show "sends (snd (login pf w s)) \<le> sends s + 9" using r s0 s1 s2 s3 by simp
  show "(\<forall>k. netOpen_at w k) \<longrightarrow> sends (snd (login pf w s)) = sends s + 9"
    using r s0 s1 s2 s3 by simp
qed

lemma conn_setState:
  "flags AND STATE_CONNECTED = 0 \<Longrightarrow>
     m_state (setState flags s) AND STATE_CONNECTED = m_state s AND STATE_CONNECTED"
  by (simp add: setState_def word_ao_dist)

lemma conn_flags:
  "STATE_MEMS_READY AND STATE_CONNECTED = 0" "STATE_OBD_READY AND STATE_CONNECTED = 0"
  "STATE_GPS_READY AND STATE_CONNECTED = 0" "STATE_NET_READY AND STATE_CONNECTED = 0"
  by (simp_all add: STATE_MEMS_READY_def STATE_OBD_READY_def STATE_GPS_READY_def
      STATE_NET_READY_def STATE_CONNECTED_def)

lemma conn_clear_all_good:
  "m_state (clearState STATE_ALL_GOOD s) AND STATE_CONNECTED = m_state s AND STATE_CONNECTED"
  by (simp add: clearState_def STATE_ALL_GOOD_def STATE_CONNECTED_def word_bw_assocs)

lemma m_state_emit_asked [simp]:
  "m_state (setState flags (emit e s)) = m_state (setState flags s)"
  "m_state (setState flags (asked s)) = m_state (setState flags s)"
  by (simp_all add: setState_def emit_def asked_def)

lemma setup_mems_conn:
  "m_state (setup_mems w s) AND STATE_CONNECTED = m_state s AND STATE_CONNECTED"
  by (simp add: setup_mems_def Let_def conn_setState conn_flags)

lemma setup_obd_conn:
  "m_state (snd (setup_obd pf w s)) AND STATE_CONNECTED = m_state s AND STATE_CONNECTED"
  by (simp add: setup_obd_def Let_def conn_setState conn_flags)

lemma setup_gps_conn:
  "m_state (setup_gps pf w s) AND STATE_CONNECTED = m_state s AND STATE_CONNECTED"
  by (simp add: setup_gps_def Let_def conn_setState conn_flags)

lemma wifi_attempt_conn:
  "m_state (flow_state (wifi_attempt pf w s)) AND STATE_CONNECTED = m_state s AND STATE_CONNECTED"
  by (simp add: wifi_attempt_def flow_state_def Let_def conn_setState conn_flags)

lemma setup_cell_conn:
  "m_state (snd (setup_cell pf w s)) AND STATE_CONNECTED = m_state s AND STATE_CONNECTED"
  by (simp add: setup_cell_def Let_def conn_setState conn_flags split: prod.split)

lemma setup_net_conn:
  "m_state (snd (setup_net pf w s)) AND STATE_CONNECTED = m_state s AND STATE_CONNECTED"
proof (cases "NET_DEVICE pf")
  case NET_WIFI
  have "m_state (snd (attempts3 (wifi_attempt pf w) 0 s)) AND STATE_CONNECTED
          = m_state s AND STATE_CONNECTED"
    by (rule attempts3_frame [of "\<lambda>s. m_state s AND STATE_CONNECTED"]) (rule wifi_attempt_conn)
  with NET_WIFI show ?thesis by (simp add: setup_net_def Let_def)
next
  case NET_SIM800
  then show ?thesis by (simp add: setup_net_def setup_cell_conn)
next
  case NET_SIM5360
  then show ?thesis by (simp add: setup_net_def setup_cell_conn)
qed

lemma setup_ip_conn: "m_state (snd (setup_ip w s)) = m_state s"
  by (simp add: setup_ip_def Let_def)

lemma setup_logger_corrupted:
  assumes "EVENT_LOGIN pf \<noteq> EVENT_ACK pf"
    and "\<forall>k bytes. netReceive_at w k = Some bytes \<longrightarrow> \<not> fst (verifyChecksum pf (bytes @ [NUL]))"
  shows "fst (setup_logger pf w s) = False"
    and "m_state (snd (setup_logger pf w s)) AND STATE_CONNECTED = m_state s AND STATE_CONNECTED"
proof -
  define s1 where "s1 = setup_mems w ((clearState STATE_ALL_GOOD s)\<lparr>distance := 0\<rparr>)"
  have c1: "m_state s1 AND STATE_CONNECTED = m_state s AND STATE_CONNECTED"
    unfolding s1_def setup_mems_conn using conn_clear_all_good [of s] by (simp add: clearState_def)
  obtain b2 s2 where o: "setup_obd pf w s1 = (b2, s2)" by (cases "setup_obd pf w s1")
  have c2: "m_state s2 AND STATE_CONNECTED = m_state s AND STATE_CONNECTED"
    using setup_obd_conn [of pf w s1] o c1 by simp
  obtain b3 s3 where n: "setup_net pf w (setup_gps pf w s2) = (b3, s3)"
    by (cases "setup_net pf w (setup_gps pf w s2)")
  have c3: "m_state s3 AND STATE_CONNECTED = m_state s AND STATE_CONNECTED"
    using setup_net_conn [of pf w "setup_gps pf w s2"] n setup_gps_conn [of pf w s2] c2 by simp
  define s4 where "s4 = (if checkState STATE_MEMS_READY s3 then emit CalibrateMEMS s3 else s3)"
  obtain csq s5 where i: "setup_ip w s4 = (csq, s5)" by (cases "setup_ip w s4")
  define s6 where "s6 = s5\<lparr>txCount := 0, cache := init_storage (RAM_CACHE_SIZE pf) (cache s5),
                              netbuf := init_storage 256 (netbuf s5)\<rparr>"
  have c6: "m_state s6 AND STATE_CONNECTED = m_state s AND STATE_CONNECTED"
    using setup_ip_conn [of w s4] i c3 by (simp add: s6_def s4_def)
  obtain b7 s7 where l: "login pf w s6 = (b7, s7)" by (cases "login pf w s6")
  have b7: "b7 = False" and c7: "m_state s7 = m_state s6"
    using login_corrupted(1,2) [OF assms, of s6] l by simp_all
  have res: "setup_logger pf w s =
      (if \<not> b2 then (False, s2) else if \<not> b3 then (False, s3) else (False, s7))"
    using o n i l b7
    by (simp add: setup_logger_def Let_def s1_def [symmetric] s4_def [symmetric] s6_def [symmetric])
  show "fst (setup_logger pf w s) = False" using res by simp
  show "m_state (snd (setup_logger pf w s)) AND STATE_CONNECTED = m_state s AND STATE_CONNECTED"
    using res c2 c3 c6 c7 by simp
qed


text \<open>
  C5 (as stated it fails: the request goes out nine times, not three). When every reply to
  a LOGIN request fails the checksum, \<open>login\<close> returns failure after exactly three
  attempts, each of which opens the link once and, when the link opens, lets
  \<open>notifyServer\<close> send the request three times: at most nine sends, and nine when every
  open succeeds. \<open>setup\<close> then returns failure with the SessionConnected bit as it was
  before the call.
\<close>

theorem login_fails_on_corrupted_replies:
  assumes "EVENT_LOGIN pf \<noteq> EVENT_ACK pf"
    and "\<forall>k bytes. netReceive_at w k = Some bytes \<longrightarrow> \<not> fst (verifyChecksum pf (bytes @ [NUL]))"
  shows "fst (login pf w s) = False
    \<and> opens (snd (login pf w s)) = opens s + 3
    \<and> sends (snd (login pf w s)) \<le> sends s + 9
    \<and> ((\<forall>k. netOpen_at w k) \<longrightarrow> sends (snd (login pf w s)) = sends s + 9)
    \<and> fst (setup_logger pf w s) = False
    \<and> checkState STATE_CONNECTED (snd (setup_logger pf w s)) = checkState STATE_CONNECTED s"
  using login_corrupted [OF assms, of s] setup_logger_corrupted [OF assms, of s]
  by (simp add: checkState_def)

lemma corrupting_server_replies:
  "\<forall>k bytes. netReceive_at corrupting_server k = Some bytes \<longrightarrow>
     \<not> fst (verifyChecksum example_platform (bytes @ [NUL]))"
proof -
  have "\<not> fst (verifyChecksum example_platform (''1#EV=1*00'' @ [NUL]))"
    by (simp add: verifyChecksum_def cdefs xdefs)
  then show ?thesis by (auto simp: corrupting_server_def quiet_world_def)
qed

lemma example_login_not_ack: "EVENT_LOGIN example_platform \<noteq> EVENT_ACK example_platform"
  by (simp add: example_platform_def)

theorem login_fails_on_corrupted_replies_witness:
  "fst (login example_platform corrupting_server ready) = False
   \<and> opens (snd (login example_platform corrupting_server ready)) = 3
   \<and> sends (snd (login example_platform corrupting_server ready)) = 9
   \<and> fst (setup_logger example_platform corrupting_server ready) = False
   \<and> \<not> checkState STATE_CONNECTED (snd (setup_logger example_platform corrupting_server ready))"
proof -
  have o: "\<forall>k. netOpen_at corrupting_server k"
    by (simp add: corrupting_server_def quiet_world_def)
  have z: "opens ready = 0" "sends ready = 0" "\<not> checkState STATE_CONNECTED ready"
    by (simp_all add: opens_def sends_def checkState_def STATE_CONNECTED_def ready_def boot_def)
  show ?thesis
    using login_fails_on_corrupted_replies
      [OF example_login_not_ack corrupting_server_replies, of ready] o z
    by simp
qed

text \<open>
  C5, the count of the claim refuted: against a server that corrupts every reply, with
  every open and every send succeeding, \<open>login\<close> fails after nine sends of the LOGIN
  request, three in each of its three attempts.
\<close>

theorem login_sends_request_nine_times:
  "\<not> fst (verifyChecksum example_platform (''1#EV=1*00'' @ [NUL]))
   \<and> \<not> fst (login example_platform corrupting_server ready)
   \<and> sends ready = 0
   \<and> sends (snd (login example_platform corrupting_server ready)) = 9"
proof -
  have v: "\<not> fst (verifyChecksum example_platform (''1#EV=1*00'' @ [NUL]))"
    by (simp add: verifyChecksum_def cdefs xdefs)
  have o: "\<forall>k. netOpen_at corrupting_server k"
    by (simp add: corrupting_server_def quiet_world_def)
  have z: "sends ready = 0"
    by (simp add: sends_def ready_def boot_def)
  show ?thesis
    using v o z
      login_corrupted(1) [OF example_login_not_ack corrupting_server_replies, of ready]
      login_corrupted(5) [OF example_login_not_ack corrupting_server_replies, of ready]
    by simp
qed


section \<open>Replayed commands\<close>

lemma notifyServer_ack_sent:
  assumes "netSend_at w (Suc (tick s))"
  shows "notifyServer pf w (EVENT_ACK pf) serverKey payload s =
     (True, asked (emit (NetSend (buffer (tailer (dispatch (request (EVENT_ACK pf) (millis_at w (tick s)) serverKey payload)
                                              (header (feedid s) (netbuf s))))))
                    ((asked s)\<lparr>netbuf := tailer (dispatch (request (EVENT_ACK pf) (millis_at w (tick s)) serverKey payload)
                                              (header (feedid s) (netbuf s)))\<rparr>)))"
  using assms
  by (simp add: notifyServer_unfold attempts3_0 notifyServer_attempt_def Let_def)

lemma ack_loop_sent:
  assumes "netSend_at w (Suc (tick s))"
  shows "snd (attempts3 (ack_attempt pf w buf) 0 s) =
     emit (SerialPrintln ''ACK sent'')
       (snd (notifyServer pf w (EVENT_ACK pf) (SERVER_KEY pf) (Some buf)
               (emit (SerialPrintln ''Sending ACK...'') s)))"
  using notifyServer_ack_sent [of w "emit (SerialPrintln ''Sending ACK...'') s" pf "SERVER_KEY pf" "Some buf"] assms
  by (simp add: attempts3_0 ack_attempt_def)

lemma led_command:
  "executeCommand pf w (''EV=5,TK=5,CMD=LED=2'' @ [NUL] @ ''CB'' @ [NUL]) 14 s =
     Inr (''OK'', emit (DigitalWrite PIN_LED True) ((emit (SerialPrintln ''LED=2'') s)\<lparr>m_ledMode := 2\<rparr>))"
  by (simp add: executeCommand_def prefix_and_arg_def cdefs Let_def)

lemma led_datagram:
  "verifyChecksum example_platform (''EV=5,TK=5,CMD=LED=2*CB'' @ [NUL]) =
     (True, ''EV=5,TK=5,CMD=LED=2'' @ [NUL] @ ''CB'' @ [NUL])"
  by (simp add: verifyChecksum_def cdefs xdefs)

lemma led_fields:
  "strstr (''EV=5,TK=5,CMD=LED=2'' @ [NUL] @ ''CB'' @ [NUL]) 0 ''EV='' = Some 0"
  "atoi (''EV=5,TK=5,CMD=LED=2'' @ [NUL] @ ''CB'' @ [NUL]) 3 = 5"
  "strstr (''EV=5,TK=5,CMD=LED=2'' @ [NUL] @ ''CB'' @ [NUL]) 0 ''TK='' = Some 5"
  "atol (''EV=5,TK=5,CMD=LED=2'' @ [NUL] @ ''CB'' @ [NUL]) 8 = 5"
  "strstr (''EV=5,TK=5,CMD=LED=2'' @ [NUL] @ ''CB'' @ [NUL]) 0 ''CMD='' = Some 10"
  by (simp_all add: cdefs)


lemma lastCmdToken_executeCommand:
  "lastCmdToken (state_of_result (executeCommand pf w buf cmd s)) = lastCmdToken s"
  by (simp add: executeCommand_def obd_command_def state_of_result_def emit_def asked_def
      clearState_def Let_def split: option.split bool.split)

lemma lastCmdToken_login_reply: "lastCmdToken (login_reply pf data s) = lastCmdToken s"
  by (simp add: login_reply_def Let_def emit_def split: option.split)

lemma lastCmdToken_notifyServer_attempt:
  "lastCmdToken (flow_state (notifyServer_attempt pf w ev s)) = lastCmdToken s"
  by (simp add: notifyServer_attempt_def flow_state_def Let_def lastCmdToken_login_reply
      split: option.split prod.split)

lemma lastCmdToken_notifyServer:
  "lastCmdToken (snd (notifyServer pf w ev serverKey payload s)) = lastCmdToken s"
proof -
  define s0 where "s0 = (asked s)\<lparr>netbuf := tailer (dispatch (request ev (millis_at w (tick s)) serverKey payload)
                                              (header (feedid s) (netbuf s)))\<rparr>"
  have "lastCmdToken (snd (attempts3 (notifyServer_attempt pf w ev) 0 s0)) = lastCmdToken s0"
    by (rule attempts3_frame) (rule lastCmdToken_notifyServer_attempt)
  then show ?thesis
    unfolding notifyServer_snd s0_def [symmetric] by (simp add: s0_def)
qed

lemma lastCmdToken_ack_attempt:
  "lastCmdToken (flow_state (ack_attempt pf w buf s)) = lastCmdToken s"
proof -
  obtain r s1 where n: "notifyServer pf w (EVENT_ACK pf) (SERVER_KEY pf) (Some buf)
      (emit (SerialPrintln ''Sending ACK...'') s) = (r, s1)"
    by (cases "notifyServer pf w (EVENT_ACK pf) (SERVER_KEY pf) (Some buf)
      (emit (SerialPrintln ''Sending ACK...'') s)")
  have "lastCmdToken s1 = lastCmdToken s"
    using lastCmdToken_notifyServer [of pf w "EVENT_ACK pf" "SERVER_KEY pf" "Some buf"
        "emit (SerialPrintln ''Sending ACK...'') s"] n by simp
  with n show ?thesis by (cases r) (simp_all add: ack_attempt_def flow_state_def)
qed

lemma lastCmdToken_ack_loop:
  "lastCmdToken (snd (attempts3 (ack_attempt pf w buf) 0 s)) = lastCmdToken s"
  by (rule attempts3_frame) (rule lastCmdToken_ack_attempt)

lemma lastCmdToken_processCommand:
  "lastCmdToken (state_of_result (processCommand pf w data s)) = lastCmdToken s"
proof (cases "strstr data 0 ''TK=''")
  case None
  then show ?thesis by (simp add: processCommand_def state_of_result_def)
next
  case (Some p)
  show ?thesis
  proof (cases "strstr data 0 ''CMD=''")
    case None
    with Some show ?thesis by (simp add: processCommand_def state_of_result_def)
  next
    case cmd: (Some q)
    show ?thesis
    proof (cases "(word_of_int (atol data (p + 3)) :: 32 word) > lastCmdToken s")
      case False
      with Some cmd show ?thesis
        by (simp add: processCommand_def state_of_result_def Let_def lastCmdToken_ack_loop)
    next
      case True
      show ?thesis
      proof (cases "executeCommand pf w data (q + 4) s")
        case (Inl stopped)
        with Some cmd True lastCmdToken_executeCommand [of pf w data "q + 4" s] show ?thesis
          by (simp add: processCommand_def state_of_result_def Let_def)
      next
        case (Inr res)
        obtain result s1 where res: "res = (result, s1)" by (cases res)
        have "lastCmdToken s1 = lastCmdToken s"
          using lastCmdToken_executeCommand [of pf w data "q + 4" s] Inr res
          by (simp add: state_of_result_def)
        with Some cmd True Inr res show ?thesis
          by (simp add: processCommand_def state_of_result_def Let_def lastCmdToken_ack_loop)
      qed
    qed
  qed
qed

lemma led_processCommand:
  assumes "lastCmdToken s < 5" and "netSend_at w (Suc (tick s))"
  shows "processCommand example_platform w (''EV=5,TK=5,CMD=LED=2'' @ [NUL] @ ''CB'' @ [NUL]) s =
     Inr (None,
       emit (SerialPrintln ''ACK sent'')
         (snd (notifyServer example_platform w 6 (Some ''KEY'') (Some ''TK=5,MSG=OK'')
            (emit (SerialPrintln ''Sending ACK...'')
               (emit (DigitalWrite PIN_LED True)
                  ((emit (SerialPrintln ''LED=2'') s)\<lparr>m_ledMode := 2\<rparr>))))))"
proof -
  have ex: "EVENT_ACK example_platform = 6" "SERVER_KEY example_platform = Some ''KEY''"
    by (simp_all add: example_platform_def)
  have buf: "take 255 (''TK='' @ dec (unat (5 :: 32 word)) @ '',MSG='' @ cstr ''OK'' 0) = ''TK=5,MSG=OK''"
    by (simp add: cdefs)
  have t: "tick (emit (DigitalWrite PIN_LED True) ((emit (SerialPrintln ''LED=2'') s)\<lparr>m_ledMode := 2\<rparr>)) = tick s"
    by (simp add: emit_def)
  show ?thesis
    using assms led_fields(3-5) led_command [of example_platform w s] buf
      ack_loop_sent [of w "emit (DigitalWrite PIN_LED True) ((emit (SerialPrintln ''LED=2'') s)\<lparr>m_ledMode := 2\<rparr>)"
        example_platform "''TK=5,MSG=OK''"] t ex
    by (simp add: processCommand_def Let_def del: append.simps)
qed


lemma ack_frame_text:
  "buffer (tailer (dispatch (request 6 0 (Some ''KEY'') (Some ''TK=5,MSG=OK''))
             (header 0 \<lparr>m_cache = c, m_samples = n, m_cacheSize = 256\<rparr>))) =
     ''0#EV=6,TS=0,SK=KEY,TK=5,MSG=OK*B8''"
  by (simp add: buffer_def tailer_def dispatch_def header_def request_def checksum_def cdefs)

lemma led_pass:
  assumes "lastCmdToken s < 5" and "feedid s = 0" and "m_cacheSize (netbuf s) = 256"
  shows "\<exists>s'. loop_datagram example_platform replaying_server t s = Inr s'
           \<and> lastCmdToken s' = lastCmdToken s \<and> feedid s' = 0 \<and> m_cacheSize (netbuf s') = 256
           \<and> effects s' = effects s @ [DigitalWrite 4 True, NetSend ''0#EV=6,TS=0,SK=KEY,TK=5,MSG=OK*B8'']"
proof -
  have w: "netReceive_at replaying_server (tick s) = Some ''EV=5,TK=5,CMD=LED=2*CB''"
    "netSend_at replaying_server (Suc (Suc (tick s)))"
    "netSend_at replaying_server (Suc (Suc (Suc (tick s))))"
    "millis_at replaying_server (Suc (tick s)) = 0"
    by (simp_all add: replaying_server_def quiet_world_def)
  have ex: "EVENT_COMMAND example_platform = 5" "EVENT_ACK example_platform = 6"
    by (simp_all add: example_platform_def)
  define s1 where "s1 = emit (SerialPrintln ''Sending ACK...'')
               (emit (DigitalWrite PIN_LED True)
                  ((emit (SerialPrintln ''LED=2'') (asked s))\<lparr>m_ledMode := 2\<rparr>))"
  have s1: "tick s1 = Suc (tick s)" "feedid s1 = 0" "lastCmdToken s1 = lastCmdToken s"
    "effects s1 = effects s @ [DigitalWrite 4 True]"
    "netbuf s1 = netbuf s"
    using assms(2) by (simp_all add: s1_def emit_def asked_def effects_def PIN_LED_def)
  obtain c n where nb: "netbuf s = \<lparr>m_cache = c, m_samples = n, m_cacheSize = 256\<rparr>"
    using assms(3) by (cases "netbuf s") simp
  define s2 where "s2 = snd (notifyServer example_platform replaying_server 6 (Some ''KEY'')
      (Some ''TK=5,MSG=OK'') s1)"
  have n: "notifyServer example_platform replaying_server 6 (Some ''KEY'') (Some ''TK=5,MSG=OK'') s1 =
     (True, asked (emit (NetSend ''0#EV=6,TS=0,SK=KEY,TK=5,MSG=OK*B8'')
                    ((asked s1)\<lparr>netbuf := tailer (dispatch (request 6 0 (Some ''KEY'') (Some ''TK=5,MSG=OK''))
                                              (header 0 (netbuf s)))\<rparr>)))"
    using notifyServer_ack_sent [of replaying_server s1 example_platform "Some ''KEY''" "Some ''TK=5,MSG=OK''"]
      w s1 ex ack_frame_text [of c n] nb
    by simp
  have s2: "lastCmdToken s2 = lastCmdToken s" "feedid s2 = 0" "m_cacheSize (netbuf s2) = 256"
    "effects s2 = effects s @ [DigitalWrite 4 True, NetSend ''0#EV=6,TS=0,SK=KEY,TK=5,MSG=OK*B8'']"
    unfolding s2_def n using s1 nb
    by (simp_all add: emit_def asked_def effects_def tailer_def dispatch_def header_def)
  have p: "processCommand example_platform replaying_server
             (''EV=5,TK=5,CMD=LED=2'' @ [NUL] @ ''CB'' @ [NUL]) (asked s) =
           Inr (None, emit (SerialPrintln ''ACK sent'') s2)"
    using led_processCommand [of "asked s" replaying_server] assms(1) w
    by (simp add: s2_def s1_def)
  have "loop_datagram example_platform replaying_server t s = Inr (emit (SerialPrintln ''ACK sent'') s2)"
    using w(1) led_datagram led_fields(1,2) p ex
    by (simp add: loop_datagram_def Let_def del: append.simps)
  then show ?thesis
    using s2 by (simp add: effects_def)
qed

text \<open>
  C1 (the code departs from it). \<open>lastCmdToken\<close> is compared in \<open>processCommand\<close> but
  assigned nowhere: no call changes it, whatever the datagram. So a datagram with token 5
  that arrives twice is executed twice: the indicator pin is written twice and both
  acknowledgments carry the result \<open>MSG=OK\<close>, none the duplicate marker.
\<close>

theorem replayed_command_is_executed_again:
  "effects (state_of (loop_datagram_twice example_platform replaying_server 0 ready)) =
     [DigitalWrite 4 True, NetSend ''0#EV=6,TS=0,SK=KEY,TK=5,MSG=OK*B8'',
      DigitalWrite 4 True, NetSend ''0#EV=6,TS=0,SK=KEY,TK=5,MSG=OK*B8'']
   \<and> lastCmdToken (state_of (loop_datagram_twice example_platform replaying_server 0 ready)) = 0"
proof -
  have r: "lastCmdToken ready < 5" "feedid ready = 0" "m_cacheSize (netbuf ready) = 256"
    "effects ready = []" "lastCmdToken ready = 0"
    by (simp_all add: ready_def boot_def init_storage_def effects_def)
  from led_pass [OF r(1-3), of 0] obtain s1 where
    s1: "loop_datagram example_platform replaying_server 0 ready = Inr s1"
      "lastCmdToken s1 = lastCmdToken ready" "feedid s1 = 0" "m_cacheSize (netbuf s1) = 256"
      "effects s1 = effects ready @ [DigitalWrite 4 True, NetSend ''0#EV=6,TS=0,SK=KEY,TK=5,MSG=OK*B8'']"
    by blast
  have lt: "lastCmdToken s1 < 5" using s1(2) r(5) by simp
  from led_pass [OF lt s1(3,4), of 0] obtain s2 where
    s2: "loop_datagram example_platform replaying_server 0 s1 = Inr s2"
      "lastCmdToken s2 = lastCmdToken s1"
      "effects s2 = effects s1 @ [DigitalWrite 4 True, NetSend ''0#EV=6,TS=0,SK=KEY,TK=5,MSG=OK*B8'']"
    by blast
  have "loop_datagram_twice example_platform replaying_server 0 ready = Inr s2"
    using s1(1) s2(1) by (simp add: loop_datagram_twice_def)
  then show ?thesis
    using s1 s2 r by (simp add: state_of_def)
qed


section \<open>What is read after validation\<close>

lemma trailer_datagram:
  "verifyChecksum example_platform (''EV=5,TK=10099,CMD=LED*2A'' @ [NUL]) =
     (True, ''EV=5,TK=10099,CMD=LED'' @ [NUL] @ ''2A'' @ [NUL])"
  by (simp add: verifyChecksum_def cdefs xdefs)

lemma trailer_fields:
  "strstr (''EV=5,TK=10099,CMD=LED'' @ [NUL] @ ''2A'' @ [NUL]) 0 ''EV='' = Some 0"
  "atoi (''EV=5,TK=10099,CMD=LED'' @ [NUL] @ ''2A'' @ [NUL]) 3 = 5"
  "strstr (''EV=5,TK=10099,CMD=LED'' @ [NUL] @ ''2A'' @ [NUL]) 0 ''TK='' = Some 5"
  "atol (''EV=5,TK=10099,CMD=LED'' @ [NUL] @ ''2A'' @ [NUL]) 8 = 10099"
  "strstr (''EV=5,TK=10099,CMD=LED'' @ [NUL] @ ''2A'' @ [NUL]) 0 ''CMD='' = Some 14"
  "cstr (''EV=5,TK=10099,CMD=LED'' @ [NUL] @ ''2A'' @ [NUL]) 18 = ''LED''"
  "peek (''EV=5,TK=10099,CMD=LED'' @ [NUL] @ ''2A'' @ [NUL]) 21 = Some NUL"
  "cstr (''EV=5,TK=10099,CMD=LED'' @ [NUL] @ ''2A'' @ [NUL]) 22 = ''2A''"
  by (simp_all add: cdefs)

lemma trailer_command:
  "executeCommand pf w (''EV=5,TK=10099,CMD=LED'' @ [NUL] @ ''2A'' @ [NUL]) 18 s =
     Inr (''OK'', emit (DigitalWrite PIN_LED True) ((emit (SerialPrintln ''LED'') s)\<lparr>m_ledMode := 2\<rparr>))"
  by (simp add: executeCommand_def prefix_and_arg_def cdefs Let_def)

lemma trailer_processCommand:
  assumes "lastCmdToken s < 10099" and "netSend_at w (Suc (tick s))"
  shows "processCommand example_platform w (''EV=5,TK=10099,CMD=LED'' @ [NUL] @ ''2A'' @ [NUL]) s =
     Inr (None,
       emit (SerialPrintln ''ACK sent'')
         (snd (notifyServer example_platform w 6 (Some ''KEY'') (Some ''TK=10099,MSG=OK'')
            (emit (SerialPrintln ''Sending ACK...'')
               (emit (DigitalWrite PIN_LED True)
                  ((emit (SerialPrintln ''LED'') s)\<lparr>m_ledMode := 2\<rparr>))))))"
proof -
  have ex: "EVENT_ACK example_platform = 6" "SERVER_KEY example_platform = Some ''KEY''"
    by (simp_all add: example_platform_def)
  have buf: "take 255 (''TK='' @ dec (unat (10099 :: 32 word)) @ '',MSG='' @ cstr ''OK'' 0) = ''TK=10099,MSG=OK''"
    by (simp add: cdefs)
  have t: "tick (emit (DigitalWrite PIN_LED True) ((emit (SerialPrintln ''LED'') s)\<lparr>m_ledMode := 2\<rparr>)) = tick s"
    by (simp add: emit_def)
  show ?thesis
    using assms trailer_fields(3-5) trailer_command [of example_platform w s] buf
      ack_loop_sent [of w "emit (DigitalWrite PIN_LED True) ((emit (SerialPrintln ''LED'') s)\<lparr>m_ledMode := 2\<rparr>)"
        example_platform "''TK=10099,MSG=OK''"] t ex
    by (simp add: processCommand_def Let_def del: append.simps)
qed

lemma trailer_ack_frame_text:
  "buffer (tailer (dispatch (request 6 0 (Some ''KEY'') (Some ''TK=10099,MSG=OK''))
             (header 0 \<lparr>m_cache = c, m_samples = n, m_cacheSize = 256\<rparr>))) =
     ''0#EV=6,TS=0,SK=KEY,TK=10099,MSG=OK*86''"
  by (simp add: buffer_def tailer_def dispatch_def header_def request_def checksum_def cdefs)

lemma trailer_pass:
  "\<exists>s'. loop_datagram example_platform trailer_command_server t ready = Inr s'
         \<and> m_ledMode s' = 2
         \<and> effects s' = [DigitalWrite 4 True, NetSend ''0#EV=6,TS=0,SK=KEY,TK=10099,MSG=OK*86'']"
proof -
  have r: "lastCmdToken ready < 10099" "feedid ready = 0" "tick ready = 0" "effects ready = []"
    "netbuf ready = \<lparr>m_cache = [], m_samples = 0, m_cacheSize = 256\<rparr>"
    by (simp_all add: ready_def boot_def init_storage_def effects_def)
  have w: "netReceive_at trailer_command_server (tick ready) = Some ''EV=5,TK=10099,CMD=LED*2A''"
    "netSend_at trailer_command_server (Suc (Suc (tick ready)))"
    "netSend_at trailer_command_server (Suc (Suc (Suc (tick ready))))"
    "millis_at trailer_command_server (Suc (tick ready)) = 0"
    by (simp_all add: trailer_command_server_def quiet_world_def)
  have ex: "EVENT_COMMAND example_platform = 5" "EVENT_ACK example_platform = 6"
    by (simp_all add: example_platform_def)
  define s1 where "s1 = emit (SerialPrintln ''Sending ACK...'')
               (emit (DigitalWrite PIN_LED True)
                  ((emit (SerialPrintln ''LED'') (asked ready))\<lparr>m_ledMode := 2\<rparr>))"
  have s1: "tick s1 = Suc (tick ready)" "feedid s1 = 0" "m_ledMode s1 = 2"
    "effects s1 = [DigitalWrite 4 True]"
    "netbuf s1 = netbuf ready"
    using r(2,4) by (simp_all add: s1_def emit_def asked_def effects_def PIN_LED_def)
  define s2 where "s2 = snd (notifyServer example_platform trailer_command_server 6 (Some ''KEY'')
      (Some ''TK=10099,MSG=OK'') s1)"
  have n: "notifyServer example_platform trailer_command_server 6 (Some ''KEY'') (Some ''TK=10099,MSG=OK'') s1 =
     (True, asked (emit (NetSend ''0#EV=6,TS=0,SK=KEY,TK=10099,MSG=OK*86'')
                    ((asked s1)\<lparr>netbuf := tailer (dispatch (request 6 0 (Some ''KEY'') (Some ''TK=10099,MSG=OK''))
                                              (header 0 (netbuf ready)))\<rparr>)))"
    using notifyServer_ack_sent [of trailer_command_server s1 example_platform "Some ''KEY''" "Some ''TK=10099,MSG=OK''"]
      w s1 ex trailer_ack_frame_text [of "[]" 0] r(5)
    by simp
  have s2: "m_ledMode s2 = 2"
    "effects s2 = [DigitalWrite 4 True, NetSend ''0#EV=6,TS=0,SK=KEY,TK=10099,MSG=OK*86'']"
    unfolding s2_def n using s1
    by (simp_all add: emit_def asked_def effects_def)
  have p: "processCommand example_platform trailer_command_server
             (''EV=5,TK=10099,CMD=LED'' @ [NUL] @ ''2A'' @ [NUL]) (asked ready) =
           Inr (None, emit (SerialPrintln ''ACK sent'') s2)"
    using trailer_processCommand [of "asked ready" trailer_command_server] r(1) w
    by (simp add: s2_def s1_def)
  have "loop_datagram example_platform trailer_command_server t ready = Inr (emit (SerialPrintln ''ACK sent'') s2)"
    using w(1) trailer_datagram trailer_fields(1,2) p ex
    by (simp add: loop_datagram_def Let_def del: append.simps)
  then show ?thesis
    using s2 by (simp add: effects_def)
qed

text \<open>
  C9, the claim refuted. The datagram \<open>EV=5,TK=10099,CMD=LED*2A\<close> has a valid checksum;
  after validation the buffer holds the payload, a NUL, the digits \<open>2A\<close> and the
  terminator, and the command at offset 18 is the word \<open>LED\<close>. \<open>executeCommand\<close> tests
  \<open>cmd[4]\<close>, the byte behind that NUL, finds the \<open>2\<close> of the trailer, and sets the
  indicator mode to \<open>atoi\<close> of \<open>2A\<close>: the mode goes from 0 to 2 and the pin is driven
  high. And in the buffer \<open>EV=3*0B\<close>, NUL, \<open>*00\<close> the byte that is overwritten is the \<open>*\<close>
  at offset 4; the last \<open>*\<close> of the buffer, at offset 8, stays.
\<close>

theorem command_parsing_reads_trailer:
  "verifyChecksum example_platform (''EV=5,TK=10099,CMD=LED*2A'' @ [NUL]) =
     (True, ''EV=5,TK=10099,CMD=LED'' @ [NUL] @ ''2A'' @ [NUL])
   \<and> cstr (''EV=5,TK=10099,CMD=LED'' @ [NUL] @ ''2A'' @ [NUL]) 18 = ''LED''
   \<and> executeCommand example_platform trailer_command_server
        (''EV=5,TK=10099,CMD=LED'' @ [NUL] @ ''2A'' @ [NUL]) 18 ready =
        Inr (''OK'', emit (DigitalWrite PIN_LED True) ((emit (SerialPrintln ''LED'') ready)\<lparr>m_ledMode := 2\<rparr>))
   \<and> m_ledMode ready = 0
   \<and> m_ledMode (state_of (loop_datagram example_platform trailer_command_server 0 ready)) = 2
   \<and> effects (state_of (loop_datagram example_platform trailer_command_server 0 ready)) =
        [DigitalWrite 4 True, NetSend ''0#EV=6,TS=0,SK=KEY,TK=10099,MSG=OK*86'']
   \<and> snd (verifyChecksum example_platform (''EV=3*0B'' @ [NUL] @ ''*00'' @ [NUL])) =
        ''EV=3'' @ [NUL] @ ''0B'' @ [NUL] @ ''*00'' @ [NUL]"
proof -
  from trailer_pass [of 0] obtain s' where
    s': "loop_datagram example_platform trailer_command_server 0 ready = Inr s'"
      "m_ledMode s' = 2"
      "effects s' = [DigitalWrite 4 True, NetSend ''0#EV=6,TS=0,SK=KEY,TK=10099,MSG=OK*86'']"
    by blast
  have l: "m_ledMode (state_of (loop_datagram example_platform trailer_command_server 0 ready)) = 2"
    "effects (state_of (loop_datagram example_platform trailer_command_server 0 ready)) =
        [DigitalWrite 4 True, NetSend ''0#EV=6,TS=0,SK=KEY,TK=10099,MSG=OK*86'']"
    using s' by (simp_all add: state_of_def)
  have z: "m_ledMode ready = 0" by (simp add: ready_def boot_def)
  have v: "snd (verifyChecksum example_platform (''EV=3*0B'' @ [NUL] @ ''*00'' @ [NUL])) =
        ''EV=3'' @ [NUL] @ ''0B'' @ [NUL] @ ''*00'' @ [NUL]"
    by (simp add: verifyChecksum_def cdefs xdefs)
  show ?thesis
    using trailer_datagram trailer_fields(6) trailer_command [of example_platform trailer_command_server ready]
      l z v
    by (simp del: append.simps)
qed


section \<open>The rotation of the low-priority parameters\<close>

lemma count_poll_pid [simp]: "count (poll_pid w pid s) = count s"
  by (simp add: poll_pid_def Let_def emit_def asked_def split: option.split)

lemma count_poll_tier2 [simp]: "count (poll_tier2 w pid s) = count s"
  by (simp add: poll_tier2_def Let_def)

lemma count_readSpeed [simp]: "count (snd (readSpeed pf w s)) = count s"
  by (simp add: readSpeed_def Let_def asked_def split: option.split)

lemma readSpeed_value:
  "readPID_at w (tick s) (PID_SPEED pf) = Some v \<Longrightarrow> fst (readSpeed pf w s) = v"
  by (simp add: readSpeed_def Let_def)

lemma rotate_tier2_count: "count (state_of (rotate_tier2 pf w s)) = count s + 1"
  by (simp add: rotate_tier2_def Let_def state_of_def)

lemma rotate_tier2_result:
  "map_sum fst (\<lambda>s'. ()) (rotate_tier2 pf w s) =
     (if unat (count s) mod 50 = 0 \<and> 5 \<le> unat (count s + 1) div 50
      then Inl (IndexOutOfBounds (unat (count s + 1) div 50))
      else Inr ())"
  by (simp add: rotate_tier2_def Let_def pidTier2_def)

lemma processOBD_rotates:
  assumes "readPID_at w (tick s) (PID_SPEED pf) = Some v" and "v \<noteq> - 1"
  shows "\<exists>s4. count s4 = count s \<and> processOBD pf w s = rotate_tier2 pf w s4"
proof -
  obtain s1 where rs: "readSpeed pf w s = (v, s1)"
    using readSpeed_value [OF assms(1)] by (cases "readSpeed pf w s") simp
  have c1: "count s1 = count s" using count_readSpeed [of pf w s] rs by simp
  define s4 where "s4 = fold (poll_pid w) [PID_RPM pf, PID_ENGINE_LOAD pf, PID_THROTTLE pf]
      (s1\<lparr>cache := log_storage (PID_TRIP_DISTANCE pf) (sint (distance s1))
                    (log_storage (0x100 OR ucast (PID_SPEED pf)) (sint v) (cache s1))\<rparr>)"
  have "count s4 = count s" unfolding s4_def using c1 by simp
  moreover have "processOBD pf w s = rotate_tier2 pf w s4"
    using rs assms(2) by (simp add: processOBD_def Let_def s4_def)
  ultimately show ?thesis by blast
qed

lemma processOBD_count:
  assumes "readPID_at w (tick s) (PID_SPEED pf) = Some v" and "v \<noteq> - 1"
  shows "map_sum fst (\<lambda>s'. ()) (processOBD pf w s) =
     (if unat (count s) mod 50 = 0 \<and> 5 \<le> unat (count s + 1) div 50
      then Inl (IndexOutOfBounds (unat (count s + 1) div 50))
      else Inr ())"
    and "count (state_of (processOBD pf w s)) = count s + 1"
proof -
  from processOBD_rotates [OF assms] obtain s4 where
    s4: "count s4 = count s" "processOBD pf w s = rotate_tier2 pf w s4" by blast
  show "map_sum fst (\<lambda>s'. ()) (processOBD pf w s) =
     (if unat (count s) mod 50 = 0 \<and> 5 \<le> unat (count s + 1) div 50
      then Inl (IndexOutOfBounds (unat (count s + 1) div 50))
      else Inr ())"
    unfolding s4(2) rotate_tier2_result s4(1) ..
  show "count (state_of (processOBD pf w s)) = count s + 1"
    unfolding s4(2) rotate_tier2_count s4(1) ..
qed


lemma unat_byte_of_nat: "n < 256 \<Longrightarrow> unat (of_nat n :: 8 word) = n"
  by (simp add: unat_of_nat)

lemma no_sixth_firing: "n < 250 \<Longrightarrow> \<not> (n mod 50 = 0 \<and> 5 \<le> Suc n div 50)"
proof
  assume n: "n < 250" and a: "n mod 50 = 0 \<and> 5 \<le> Suc n div 50"
  then have "5 * 50 \<le> Suc n" by (simp add: less_eq_div_iff_mult_less_eq)
  with n have "n = 249" by simp
  with a show False by simp
qed

lemma processOBD_times_count:
  assumes "\<forall>k. \<exists>v. readPID_at w k (PID_SPEED pf) = Some v \<and> v \<noteq> - 1"
    and "count s = 0"
  shows "n \<le> 250 \<Longrightarrow> \<exists>s'. processOBD_times pf w n s = Inr s' \<and> count s' = of_nat n"
proof (induction n)
  case 0
  then show ?case using assms(2) by simp
next
  case (Suc n)
  then obtain s1 where s1: "processOBD_times pf w n s = Inr s1" "count s1 = of_nat n"
    by auto
  obtain v where v: "readPID_at w (tick s1) (PID_SPEED pf) = Some v" "v \<noteq> - 1"
    using assms(1) by blast
  have n: "n < 250" using Suc.prems by simp
  have u: "unat (count s1) = n"
    unfolding s1(2) using n by (intro unat_byte_of_nat) simp
  have "count s1 + 1 = of_nat (Suc n)" unfolding s1(2) by simp
  then have u1: "unat (count s1 + 1) = Suc n"
    using n by (simp only: unat_byte_of_nat)
  have "\<not> (n mod 50 = 0 \<and> 5 \<le> Suc n div 50)" using n by (rule no_sixth_firing)
  then have "map_sum fst (\<lambda>s'. ()) (processOBD pf w s1) = Inr ()"
    unfolding processOBD_count(1) [OF v] u u1 by (simp only: if_False)
  then obtain s2 where s2: "processOBD pf w s1 = Inr s2"
    by (cases "processOBD pf w s1") auto
  have "count s2 = count s1 + 1"
    using processOBD_count(2) [OF v] s2 by (simp add: state_of_def)
  with s1 s2 show ?case by simp
qed

lemma steady_drive_speed:
  "\<forall>k. \<exists>v. readPID_at steady_drive k (PID_SPEED pf) = Some v \<and> v \<noteq> - 1"
  by (simp add: steady_drive_def quiet_world_def)

text \<open>
  C3 (the code departs from it). The counter is a byte that is incremented before it is
  divided: the rotation fires at the counts 0, 50, 100, 150, 200 and 250, and the index
  \<open>count / 50\<close> is taken after the increment, so the six firings index the table at
  0, 1, 2, 3, 4 and 5. The first five cycle through the five entries; the sixth, in the
  251st successful polling iteration, reads past the end of the 5-element table.
\<close>

theorem tier2_index_leaves_table:
  "map_sum fst count (processOBD_times example_platform steady_drive 250 ready) = Inr 250
   \<and> map_sum fst count (processOBD_times example_platform steady_drive (Suc 250) ready) =
       Inl (IndexOutOfBounds 5)
   \<and> length (pidTier2 example_platform) = 5
   \<and> map (\<lambda>c. unat (c + 1 :: 8 word) div 50) [0, 50, 100, 150, 200, 250] = [0, 1, 2, 3, 4, 5]"
proof -
  have c0: "count ready = 0" by (simp add: ready_def boot_def)
  from processOBD_times_count [OF steady_drive_speed c0, of 250 example_platform]
  obtain s1 where s1: "processOBD_times example_platform steady_drive 250 ready = Inr s1"
    "count s1 = 250" by auto
  obtain v where v: "readPID_at steady_drive (tick s1) (PID_SPEED example_platform) = Some v" "v \<noteq> - 1"
    using steady_drive_speed by blast
  have i: "unat (250 :: 8 word) mod 50 = 0" "unat (250 + 1 :: 8 word) div 50 = 5" by simp_all
  have "map_sum fst (\<lambda>s'. ()) (processOBD example_platform steady_drive s1) = Inl (IndexOutOfBounds 5)"
    unfolding processOBD_count(1) [OF v] s1(2) i by simp
  then obtain s2 where s2: "processOBD example_platform steady_drive s1 = Inl (IndexOutOfBounds 5, s2)"
    by (cases "processOBD example_platform steady_drive s1") auto
  have a: "map_sum fst count (processOBD_times example_platform steady_drive 250 ready) = Inr 250"
    unfolding s1(1) using s1(2) by simp
  have b: "map_sum fst count (processOBD_times example_platform steady_drive (Suc 250) ready) =
       Inl (IndexOutOfBounds 5)"
    unfolding processOBD_times.simps s1(1) using s2 by simp
  have c: "length (pidTier2 example_platform) = 5" by (simp add: pidTier2_def)
  have d: "map (\<lambda>c. unat (c + 1 :: 8 word) div 50) [0, 50, 100, 150, 200, 250] = [0, 1, 2, 3, 4, 5]"
    by simp
  from a b c d show ?thesis by blast
qed


section \<open>Trip distance\<close>

lemma unat_nonneg_sint:
  fixes x :: "32 word"
  assumes "0 \<le> sint x"
  shows "int (unat x) = sint x"
proof -
  have "sint x < 2 ^ (LENGTH(32) - Suc 0)" by (rule sint_less)
  moreover have "(2 :: int) ^ (LENGTH(32) - Suc 0) \<le> 2 ^ 32" by simp
  ultimately have "sint x < 2 ^ 32" by (rule less_le_trans)
  with assms have "take_bit 32 (sint x) = sint x" by (rule take_bit_int_eq_self)
  moreover have "uint x = take_bit LENGTH(32) (sint x)" by (rule uint_sint)
  ultimately have "uint x = sint x" by simp
  then show ?thesis by (simp only: uint_nat)
qed

lemma trapezoid_no_wrap:
  fixes v ls t lt d :: "32 word"
  assumes v: "0 \<le> sint v" "sint v \<le> 3600"
    and ls: "0 \<le> sint ls" "sint ls \<le> 3600"
    and t: "unat lt < unat t"
    and d: "unat d \<le> unat lt"
  shows "d \<le> d + (((v + ls) * (t - lt)) div 3600) div 2"
    and "unat (d + (((v + ls) * (t - lt)) div 3600) div 2) \<le> unat t"
proof -
  have a: "unat v \<le> 3600" using unat_nonneg_sint [OF v(1)] v(2) by linarith
  have b: "unat ls \<le> 3600" using unat_nonneg_sint [OF ls(1)] ls(2) by linarith
  have "unat v + unat ls < 2 ^ LENGTH(32)" using a b by simp
  then have sum: "unat (v + ls) = unat v + unat ls" by (simp only: unat_add_lem)
  have "lt \<le> t" using t by (simp add: word_le_nat_alt)
  then have dt: "unat (t - lt) = unat t - unat lt" by (rule unat_sub)
  define inc where "inc = (((v + ls) * (t - lt)) div 3600) div 2"
  have "unat ((v + ls) * (t - lt)) = (unat (v + ls) * unat (t - lt)) mod 2 ^ LENGTH(32)"
    by (rule unat_word_ariths)
  also have "\<dots> \<le> unat (v + ls) * unat (t - lt)" by simp
  also have "\<dots> \<le> 7200 * (unat t - unat lt)"
    unfolding sum dt using a b by (intro mult_le_mono) simp_all
  finally have p: "unat ((v + ls) * (t - lt)) \<le> 7200 * (unat t - unat lt)" .
  have "unat inc = unat ((v + ls) * (t - lt)) div 3600 div 2"
    unfolding inc_def by (simp add: unat_div)
  also have "\<dots> \<le> (7200 * (unat t - unat lt)) div 3600 div 2"
    using p by (intro div_le_mono) 
  also have "\<dots> = unat t - unat lt" by simp
  finally have i: "unat inc \<le> unat t - unat lt" .
  have "unat d + unat inc \<le> unat t" using i d t by simp
  moreover have "unat t < 2 ^ LENGTH(32)" by (rule unsigned_less)
  ultimately have lt32: "unat d + unat inc < 2 ^ LENGTH(32)" by simp
  then have add: "unat (d + inc) = unat d + unat inc" by (simp only: unat_add_lem)
  show "d \<le> d + (((v + ls) * (t - lt)) div 3600) div 2"
    unfolding inc_def [symmetric] using add by (simp add: word_le_nat_alt)
  show "unat (d + (((v + ls) * (t - lt)) div 3600) div 2) \<le> unat t"
    unfolding inc_def [symmetric] using add \<open>unat d + unat inc \<le> unat t\<close> by simp
qed

lemma readSpeed_success:
  assumes "readPID_at w (tick s) (PID_SPEED pf) = Some v"
  shows "snd (readSpeed pf w s) =
     (asked (asked s))\<lparr>distance := distance s
         + (((v + lastSpeed s) * (millis_at w (Suc (tick s)) - lastSpeedTime s)) div 3600) div 2,
       lastSpeedTime := millis_at w (Suc (tick s)), lastSpeed := v\<rparr>"
  using assms by (simp add: readSpeed_def Let_def asked_def)


lemma readSpeed_times_invariant:
  assumes "unat (distance s) \<le> unat (lastSpeedTime s)"
    and "0 \<le> sint (lastSpeed s)" and "sint (lastSpeed s) \<le> 3600"
    and "\<forall>k<n. \<exists>v. readPID_at w (tick s + 2 * k) (PID_SPEED pf) = Some v
                  \<and> 0 \<le> sint v \<and> sint v \<le> 3600"
    and "0 < n \<longrightarrow> unat (lastSpeedTime s) < unat (millis_at w (tick s + 1))"
    and "\<forall>k. Suc k < n \<longrightarrow>
           unat (millis_at w (tick s + 2 * k + 1)) < unat (millis_at w (tick s + 2 * k + 3))"
  shows "k \<le> n \<Longrightarrow>
     tick (readSpeed_times pf w k s) = tick s + 2 * k
     \<and> unat (distance (readSpeed_times pf w k s)) \<le> unat (lastSpeedTime (readSpeed_times pf w k s))
     \<and> 0 \<le> sint (lastSpeed (readSpeed_times pf w k s))
     \<and> sint (lastSpeed (readSpeed_times pf w k s)) \<le> 3600
     \<and> (k < n \<longrightarrow> unat (lastSpeedTime (readSpeed_times pf w k s))
                     < unat (millis_at w (tick s + 2 * k + 1)))
     \<and> (k < n \<longrightarrow> distance (readSpeed_times pf w k s)
                     \<le> distance (readSpeed_times pf w (Suc k) s))"
proof (induction k)
  case 0
  show ?case
  proof (intro conjI impI)
    show "tick (readSpeed_times pf w 0 s) = tick s + 2 * 0" by simp
    show "unat (distance (readSpeed_times pf w 0 s)) \<le> unat (lastSpeedTime (readSpeed_times pf w 0 s))"
      using assms(1) by simp
    show "0 \<le> sint (lastSpeed (readSpeed_times pf w 0 s))" using assms(2) by simp
    show "sint (lastSpeed (readSpeed_times pf w 0 s)) \<le> 3600" using assms(3) by simp
    show "unat (lastSpeedTime (readSpeed_times pf w 0 s)) < unat (millis_at w (tick s + 2 * 0 + 1))"
      if "0 < n" using that assms(5) by simp
    show "distance (readSpeed_times pf w 0 s) \<le> distance (readSpeed_times pf w (Suc 0) s)"
      if "0 < n"
    proof -
      from assms(4) that obtain v where v: "readPID_at w (tick s) (PID_SPEED pf) = Some v"
        "0 \<le> sint v" "sint v \<le> 3600" by fastforce
      have t: "unat (lastSpeedTime s) < unat (millis_at w (Suc (tick s)))"
        using assms(5) that by simp
      show ?thesis
        using trapezoid_no_wrap(1) [OF v(2,3) assms(2,3) t assms(1)]
        by (simp add: readSpeed_success [OF v(1)])
    qed
  qed
next
  case (Suc k)
  then have kn: "k < n" and k: "k \<le> n" by simp_all
  define sk where "sk = readSpeed_times pf w k s"
  from Suc.IH [OF k] kn have ih:
    "tick sk = tick s + 2 * k" "unat (distance sk) \<le> unat (lastSpeedTime sk)"
    "0 \<le> sint (lastSpeed sk)" "sint (lastSpeed sk) \<le> 3600"
    "unat (lastSpeedTime sk) < unat (millis_at w (tick s + 2 * k + 1))"
    unfolding sk_def by simp_all
  from assms(4) kn obtain v where v: "readPID_at w (tick sk) (PID_SPEED pf) = Some v"
    "0 \<le> sint v" "sint v \<le> 3600" unfolding ih(1) by blast
  have t: "unat (lastSpeedTime sk) < unat (millis_at w (Suc (tick sk)))"
    using ih(5) by (simp add: ih(1))
  define s' where "s' = readSpeed_times pf w (Suc k) s"
  have s': "s' = (asked (asked sk))\<lparr>distance := distance sk
         + (((v + lastSpeed sk) * (millis_at w (Suc (tick sk)) - lastSpeedTime sk)) div 3600) div 2,
       lastSpeedTime := millis_at w (Suc (tick sk)), lastSpeed := v\<rparr>"
    unfolding s'_def using readSpeed_success [OF v(1)] by (simp add: sk_def)
  have 1: "tick s' = tick s + 2 * Suc k" unfolding s' by (simp add: ih(1))
  have 2: "unat (distance s') \<le> unat (lastSpeedTime s')"
    unfolding s' using trapezoid_no_wrap(2) [OF v(2,3) ih(3,4) t ih(2)] by simp
  have 3: "0 \<le> sint (lastSpeed s')" "sint (lastSpeed s') \<le> 3600"
    unfolding s' using v(2,3) by simp_all
  have 4: "lastSpeedTime s' = millis_at w (tick s + 2 * k + 1)"
    unfolding s' by (simp add: ih(1))
  have 5: "unat (lastSpeedTime s') < unat (millis_at w (tick s + 2 * Suc k + 1))"
    if "Suc k < n"
    using assms(6) that unfolding 4 by (simp add: numeral_3_eq_3)
  have 6: "distance s' \<le> distance (readSpeed_times pf w (Suc (Suc k)) s)" if "Suc k < n"
  proof -
    from assms(4) that obtain v' where v': "readPID_at w (tick s') (PID_SPEED pf) = Some v'"
      "0 \<le> sint v'" "sint v' \<le> 3600" unfolding 1 by blast
    have t': "unat (lastSpeedTime s') < unat (millis_at w (Suc (tick s')))"
      using 5 [OF that] by (simp add: 1)
    have "readSpeed_times pf w (Suc (Suc k)) s = snd (readSpeed pf w s')"
      unfolding s'_def by simp
    then show ?thesis
      using trapezoid_no_wrap(1) [OF v'(2,3) 3 t' 2]
      by (simp add: readSpeed_success [OF v'(1)])
  qed
  show ?case
    using 1 2 3 5 6 unfolding s'_def by blast
qed

text \<open>
  C7 (as stated it fails: the 32-bit counter wraps). Starting with the distance not above
  the time of the last reading, as at power-up and after \<open>setup\<close> sets it to 0, for every
  sequence of speed readings between 0 and 3600 taken at strictly increasing
  timestamps the accumulated distance never decreases: each increment is at most the
  elapsed time, so the counter stays below the clock and cannot wrap.
\<close>

theorem distance_non_decreasing:
  assumes "unat (distance s) \<le> unat (lastSpeedTime s)"
    and "0 \<le> sint (lastSpeed s)" and "sint (lastSpeed s) \<le> 3600"
    and "\<forall>k<n. \<exists>v. readPID_at w (tick s + 2 * k) (PID_SPEED pf) = Some v
                  \<and> 0 \<le> sint v \<and> sint v \<le> 3600"
    and "0 < n \<longrightarrow> unat (lastSpeedTime s) < unat (millis_at w (tick s + 1))"
    and "\<forall>k. Suc k < n \<longrightarrow>
           unat (millis_at w (tick s + 2 * k + 1)) < unat (millis_at w (tick s + 2 * k + 3))"
  shows "\<forall>k<n. distance (readSpeed_times pf w k s) \<le> distance (readSpeed_times pf w (Suc k) s)"
  using readSpeed_times_invariant [OF assms] by simp


theorem distance_non_decreasing_witness:
  "distance (readSpeed_times example_platform steady_drive 0 boot)
     \<le> distance (readSpeed_times example_platform steady_drive (Suc 0) boot)
   \<and> distance (readSpeed_times example_platform steady_drive (Suc 0) boot)
     \<le> distance (readSpeed_times example_platform steady_drive (Suc (Suc 0)) boot)
   \<and> distance (readSpeed_times example_platform steady_drive (Suc (Suc 0)) boot)
     \<le> distance (readSpeed_times example_platform steady_drive (Suc (Suc (Suc 0))) boot)"
proof -
  have 1: "unat (distance boot) \<le> unat (lastSpeedTime boot)" by (simp add: boot_def)
  have 2: "0 \<le> sint (lastSpeed boot)" "sint (lastSpeed boot) \<le> 3600" by (simp_all add: boot_def)
  have 4: "\<forall>k<3. \<exists>v. readPID_at steady_drive (tick boot + 2 * k) (PID_SPEED example_platform) = Some v
                  \<and> 0 \<le> sint v \<and> sint v \<le> 3600"
    by (simp add: steady_drive_def quiet_world_def)
  have 5: "0 < (3 :: nat) \<longrightarrow> unat (lastSpeedTime boot) < unat (millis_at steady_drive (tick boot + 1))"
    by (simp add: steady_drive_def quiet_world_def boot_def)
  have 6: "\<forall>k. Suc k < 3 \<longrightarrow>
           unat (millis_at steady_drive (tick boot + 2 * k + 1))
             < unat (millis_at steady_drive (tick boot + 2 * k + 3))"
  proof (intro allI impI)
    fix k :: nat
    assume "Suc k < 3"
    then have "k = 0 \<or> k = 1" by arith
    then show "unat (millis_at steady_drive (tick boot + 2 * k + 1))
             < unat (millis_at steady_drive (tick boot + 2 * k + 3))"
      by (auto simp: steady_drive_def quiet_world_def boot_def)
  qed
  have all: "\<forall>k<3. distance (readSpeed_times example_platform steady_drive k boot)
           \<le> distance (readSpeed_times example_platform steady_drive (Suc k) boot)"
    using distance_non_decreasing [OF 1 2 4 5 6] .
  have "(0 :: nat) < 3" "Suc 0 < 3" "Suc (Suc 0) < 3" by simp_all
  with all show ?thesis by blast
qed

lemma hypersonic_run:
  "n \<le> 7731 \<Longrightarrow>
     readSpeed_times pf hypersonic (Suc n) boot =
       boot\<lparr>lastSpeed := 1000000000, lastSpeedTime := of_nat (2 * Suc n),
            distance := of_nat (277777 + n * 555555), tick := 2 * Suc n\<rparr>"
proof (induction n)
  case 0
  have r: "readPID_at hypersonic (tick boot) (PID_SPEED pf) = Some 1000000000"
    by (simp add: hypersonic_def quiet_world_def)
  show ?case
    by (simp add: readSpeed_success [OF r])
      (simp add: hypersonic_def quiet_world_def boot_def asked_def)
next
  case (Suc n)
  define sn where "sn = boot\<lparr>lastSpeed := 1000000000, lastSpeedTime := of_nat (2 * Suc n),
            distance := of_nat (277777 + n * 555555), tick := 2 * Suc n\<rparr>"
  have ih: "readSpeed_times pf hypersonic (Suc n) boot = sn"
    unfolding sn_def using Suc by simp
  have r: "readPID_at hypersonic (tick sn) (PID_SPEED pf) = Some 1000000000"
    by (simp add: hypersonic_def quiet_world_def)
  have m: "millis_at hypersonic (Suc (tick sn)) = of_nat (2 * Suc (Suc n))"
    by (simp add: hypersonic_def quiet_world_def sn_def)
  have dt: "(of_nat (2 * Suc (Suc n)) :: 32 word) - of_nat (2 * Suc n) = 2"
    by simp
  have inc: "(((1000000000 + 1000000000) * (2 :: 32 word)) div 3600) div 2 = 555555"
    by simp
  have d: "(of_nat (277777 + n * 555555) :: 32 word) + 555555 = of_nat (277777 + Suc n * 555555)"
    by simp
  have "readSpeed_times pf hypersonic (Suc (Suc n)) boot = snd (readSpeed pf hypersonic sn)"
    using ih by simp
  also have "\<dots> = (asked (asked sn))\<lparr>distance := distance sn
         + (((1000000000 + lastSpeed sn) * (millis_at hypersonic (Suc (tick sn)) - lastSpeedTime sn)) div 3600) div 2,
       lastSpeedTime := millis_at hypersonic (Suc (tick sn)), lastSpeed := 1000000000\<rparr>"
    by (rule readSpeed_success [OF r])
  also have "\<dots> = boot\<lparr>lastSpeed := 1000000000, lastSpeedTime := of_nat (2 * Suc (Suc n)),
            distance := of_nat (277777 + Suc n * 555555), tick := 2 * Suc (Suc n)\<rparr>"
    unfolding m by (simp add: sn_def dt inc d asked_def boot_def)
  finally show ?case .
qed

text \<open>
  C7, the claim refuted: from power-up, readings of 1000000000 (a non-negative \<open>int\<close>)
  at the timestamps 2, 4, 6, ... ms add 555555 to the distance each (277777 the first);
  the 7732nd addition passes \<open>2^32\<close> and the distance drops from 4294717927 to 306186.
\<close>

theorem distance_wraps_around:
  "0 \<le> sint (1000000000 :: 32 word)
   \<and> distance (readSpeed_times example_platform hypersonic 7731 boot) = 4294717927
   \<and> distance (readSpeed_times example_platform hypersonic 7732 boot) = 306186
   \<and> distance (readSpeed_times example_platform hypersonic 7732 boot)
       < distance (readSpeed_times example_platform hypersonic 7731 boot)"
proof -
  have a: "distance (readSpeed_times example_platform hypersonic (Suc 7730) boot) = 4294717927"
    by (subst hypersonic_run) simp_all
  have b: "distance (readSpeed_times example_platform hypersonic (Suc 7731) boot) = 306186"
    by (subst hypersonic_run) simp_all
  have s: "Suc 7730 = 7731" "Suc 7731 = 7732" by simp_all
  have c: "(306186 :: 32 word) < 4294717927" by simp
  have d: "0 \<le> sint (1000000000 :: 32 word)" by simp
  from a b c d show ?thesis unfolding s by simp
qed

end
